theory Spec2Isabelle
  imports Complex_Main "HOL-Library.Log_Nat"
begin

section \<open>Numbers and the helpers of Utils.js\<close>

text \<open>
  A JavaScript number is an IEEE-754 double: a finite binary fraction, an infinity or
  \<open>NaN\<close>. \<open>Num r\<close> is the finite double whose value is the rational \<open>r\<close>; the sign of a
  zero is not represented. \<open>jsnum\<close> lists the values that reach a numeric parameter and
  that \<open>toNumber\<close> tells apart: \<open>undefined\<close>, \<open>null\<close>, the empty string, a finite
  number, and the three non-finite numbers.
\<close>

datatype jsnum = Undefined | Null | EmptyStr | Num rat | NaN | PosInf | NegInf

subsection \<open>Rounding to a double\<close>

text \<open>
  An arithmetic operation on doubles, and the conversion of a decimal literal, return the
  double nearest to the exact result, a tie going to the double with the even significand,
  and an infinity when the rounded result is \<open>2^1024\<close> or more in magnitude.
  \<open>to_double x\<close> is that double for the exact result \<open>x\<close>.

  \<open>pow2 e\<close> is \<open>2^e\<close>. \<open>binary_exponent x\<close> is the exponent of a positive \<open>x\<close>, the \<open>e\<close>
  with \<open>2^e \<le> x < 2^(e+1)\<close>: the difference of the bit lengths of numerator and
  denominator, or one less. A double of exponent \<open>e\<close> is a multiple of \<open>2^(e-52)\<close>; below
  the smallest normal exponent \<open>-1022\<close> the spacing stays \<open>2^(-1074)\<close>.

  \<open>SafeMath\<close> and the conversion of strings to numbers round with \<open>to_double\<close>. The
  other arithmetic of the program (a duration minus one, a stack count plus one, the
  value of a stat plus a delta) is read exactly.
\<close>

definition pow2 :: "int \<Rightarrow> rat" where
  "pow2 e = (if 0 \<le> e then of_int (2 ^ nat e) else 1 / of_int (2 ^ nat (- e)))"

definition binary_exponent :: "rat \<Rightarrow> int" where
  "binary_exponent x =
     (let (p, q) = quotient_of x;
          d = bitlen p - bitlen q
      in if pow2 d \<le> x then d else d - 1)"

definition round_half_even :: "rat \<Rightarrow> int" where
  "round_half_even y =
     (let f = \<lfloor>y\<rfloor>; r = y - of_int f
      in if r < 1 / 2 then f else if 1 / 2 < r then f + 1 else if even f then f else f + 1)"

definition to_double :: "rat \<Rightarrow> jsnum" where
  "to_double x =
     (if x = 0 then Num 0
      else
        let e = max (binary_exponent \<bar>x\<bar>) (- 1022);
            ulp = pow2 (e - 52);
            y = of_int (round_half_even (x / ulp)) * ulp
        in if pow2 1024 \<le> \<bar>y\<bar> then (if 0 < x then PosInf else NegInf) else Num y)"

subsection \<open>toNumber, toPositiveInt and SafeMath\<close>

text \<open>\<open>toNumber(value, defaultValue)\<close>, Utils.js lines 13-23, with a finite default.\<close>

fun toNumber :: "jsnum \<Rightarrow> rat \<Rightarrow> rat" where
  "toNumber Null d = d"
| "toNumber Undefined d = d"
| "toNumber EmptyStr d = d"
| "toNumber (Num r) d = r"
| "toNumber NaN d = d"
| "toNumber PosInf d = d"
| "toNumber NegInf d = d"

text \<open>
  \<open>Math.round\<close> rounds to the nearest integer, halves towards plus infinity. The integer
  nearest to a double is a double, so there is no second rounding.
\<close>

definition Math_round :: "rat \<Rightarrow> int" where
  "Math_round x = \<lfloor>x + 1 / 2\<rfloor>"

text \<open>\<open>toPositiveInt(value, defaultValue)\<close>, Utils.js lines 43-47.\<close>

definition toPositiveInt :: "jsnum \<Rightarrow> rat \<Rightarrow> int" where
  "toPositiveInt v d = (let num = toNumber v d in max 1 \<lfloor>num\<rfloor>)"

text \<open>
  \<open>Math.round(x * 1e10) / 1e10\<close> for a number \<open>x\<close>, the expression that ends each operation
  of \<open>SafeMath\<close>: the product and the quotient are rounded to a double; an infinite \<open>x\<close>,
  and a product that overflows, stay infinite through the remaining steps. \<open>1e10\<close> is
  \<open>10 ^ 10\<close>.
\<close>

definition round_1e10 :: "jsnum \<Rightarrow> jsnum" where
  "round_1e10 x =
     (case x of
        Num r \<Rightarrow> (case to_double (r * 10 ^ 10) of
                    Num t \<Rightarrow> to_double (of_int (Math_round t) / 10 ^ 10)
                  | y \<Rightarrow> y)
      | y \<Rightarrow> y)"

text \<open>
  \<open>SafeMath\<close>, Utils.js lines 250-303. \<open>numA\<close> and \<open>numB\<close> are finite, and their sum,
  difference, product and quotient are rounded to a double before they are scaled.
\<close>

definition SafeMath_add :: "jsnum \<Rightarrow> jsnum \<Rightarrow> jsnum" where
  "SafeMath_add a b =
     (let numA = toNumber a 0; numB = toNumber b 0
      in round_1e10 (to_double (numA + numB)))"

definition SafeMath_subtract :: "jsnum \<Rightarrow> jsnum \<Rightarrow> jsnum" where
  "SafeMath_subtract a b =
     (let numA = toNumber a 0; numB = toNumber b 0
      in round_1e10 (to_double (numA - numB)))"

definition SafeMath_multiply :: "jsnum \<Rightarrow> jsnum \<Rightarrow> jsnum" where
  "SafeMath_multiply a b =
     (let numA = toNumber a 0; numB = toNumber b 0
      in round_1e10 (to_double (numA * numB)))"

definition SafeMath_divide :: "jsnum \<Rightarrow> jsnum \<Rightarrow> jsnum \<Rightarrow> jsnum" where
  "SafeMath_divide a b defaultValue =
     (let numA = toNumber a 0; numB = toNumber b 0
      in if numB = 0 then Num (toNumber defaultValue 0)
         else round_1e10 (to_double (numA / numB)))"

subsection \<open>Strings and identifiers\<close>

text \<open>
  A JavaScript string is modelled as a list of 8-bit characters (code units 0 to 255).
  A field that should hold a string is a \<open>string option\<close>: \<open>None\<close> stands for
  \<open>undefined\<close> or \<open>null\<close>. \<open>is_space\<close> is the white space of \<open>String.prototype.trim\<close>
  and of the regular expression class \<open>\s\<close> in that range: tab, line feed, vertical tab,
  form feed, carriage return, space and the no-break space.
\<close>

definition is_space :: "char \<Rightarrow> bool" where
  "is_space c = (let n = (of_char c :: nat) in (9 \<le> n \<and> n \<le> 13) \<or> n = 32 \<or> n = 160)"

definition trim :: "string \<Rightarrow> string" where
  "trim s = rev (dropWhile is_space (rev (dropWhile is_space s)))"

definition toLowerCase_char :: "char \<Rightarrow> char" where
  "toLowerCase_char c =
     (let n = (of_char c :: nat)
      in if (65 \<le> n \<and> n \<le> 90) \<or> (192 \<le> n \<and> n \<le> 222 \<and> n \<noteq> 215)
         then char_of (n + 32) else c)"

definition toLowerCase :: "string \<Rightarrow> string" where
  "toLowerCase s = map toLowerCase_char s"

text \<open>\<open>toString(value, defaultValue)\<close>, Utils.js lines 73-78.\<close>

fun toString :: "string option \<Rightarrow> string \<Rightarrow> string" where
  "toString None d = d"
| "toString (Some s) d = s"

text \<open>\<open>isNonEmptyString(value)\<close>, Utils.js lines 85-87.\<close>

fun isNonEmptyString :: "string option \<Rightarrow> bool" where
  "isNonEmptyString None = False"
| "isNonEmptyString (Some s) = (length (trim s) > 0)"

text \<open>
  The clock and the random source are inputs: \<open>now\<close> is what \<open>Date.now()\<close> returns and
  \<open>random36\<close> the base-36 digits of \<open>Math.random()\<close> after the point.
\<close>

record Env =
  now :: nat
  random36 :: string

definition digit_char :: "nat \<Rightarrow> char" where
  "digit_char d = (if d < 10 then char_of (48 + d) else char_of (87 + d))"

text \<open>\<open>Number.prototype.toString(radix)\<close> on a natural number.\<close>

function to_radix :: "nat \<Rightarrow> nat \<Rightarrow> string" where
  "to_radix b n = (if b < 2 \<or> n < b then [digit_char n]
                   else to_radix b (n div b) @ [digit_char (n mod b)])"
  by pat_completeness auto
termination
  by (relation "measure (\<lambda>(b, n). n)") auto

text \<open>\<open>generateId(prefix)\<close>, Utils.js lines 153-157.\<close>

definition generateId :: "Env \<Rightarrow> string \<Rightarrow> string" where
  "generateId env prefix =
     (let timestamp = to_radix 36 (now env);
          random = take 6 (random36 env)
      in prefix @ ''_'' @ timestamp @ ''_'' @ random)"

text \<open>
  \<open>sanitizeId(id)\<close>, Utils.js lines 94-105. The three \<open>replace\<close> calls are
  \<open>replace_invalid\<close> (every character outside \<open>[a-z0-9_\-]\<close> becomes an underscore),
  \<open>collapse_underscores\<close> (\<open>/_+/g\<close>) and \<open>strip_underscore_ends\<close> (\<open>/^_|_$/g\<close>).
\<close>

definition is_id_char :: "char \<Rightarrow> bool" where
  "is_id_char c =
     (let n = (of_char c :: nat)
      in (97 \<le> n \<and> n \<le> 122) \<or> (48 \<le> n \<and> n \<le> 57) \<or> c = CHR ''_'' \<or> c = CHR ''-'')"

definition replace_invalid :: "string \<Rightarrow> string" where
  "replace_invalid s = map (\<lambda>c. if is_id_char c then c else CHR ''_'') s"

fun collapse_underscores :: "string \<Rightarrow> string" where
  "collapse_underscores [] = []"
| "collapse_underscores [c] = [c]"
| "collapse_underscores (c # d # s) =
     (if c = CHR ''_'' \<and> d = CHR ''_'' then collapse_underscores (d # s)
      else c # collapse_underscores (d # s))"

definition strip_underscore_ends :: "string \<Rightarrow> string" where
  "strip_underscore_ends s =
     (let t = (case s of [] \<Rightarrow> [] | c # r \<Rightarrow> if c = CHR ''_'' then r else s)
      in if t \<noteq> [] \<and> last t = CHR ''_'' then butlast t else t)"

definition sanitizeId :: "Env \<Rightarrow> string option \<Rightarrow> string" where
  "sanitizeId env ident =
     (if \<not> isNonEmptyString ident then ''unnamed_'' @ to_radix 10 (now env)
      else strip_underscore_ends
             (collapse_underscores (replace_invalid (toLowerCase (trim (toString ident []))))))"

subsection \<open>StatModifier\<close>

text \<open>\<open>ModifierType\<close> and \<open>validateModifierType\<close>, lines 24-42 of the modifier module.\<close>

datatype ModifierType = ADD | MULTIPLY | OVERRIDE

fun ModifierType_string :: "ModifierType \<Rightarrow> string" where
  "ModifierType_string ADD = ''add''"
| "ModifierType_string MULTIPLY = ''multiply''"
| "ModifierType_string OVERRIDE = ''override''"

definition validateModifierType :: "string option \<Rightarrow> ModifierType" where
  "validateModifierType t =
     (if t = Some ''add'' then ADD
      else if t = Some ''multiply'' then MULTIPLY
      else if t = Some ''override'' then OVERRIDE
      else ADD)"

text \<open>
  The plain object a modifier is built from and serialized to. A numeric field is a
  \<open>jsnum\<close>; \<open>cfg_createdAt\<close> is \<open>Some t\<close> when the field is a number (a time stamp, as
  \<open>Date.now()\<close> gives) and \<open>None\<close> otherwise.
\<close>

record ModifierConfig =
  cfg_id :: "string option"
  cfg_name :: "string option"
  cfg_statId :: "string option"
  cfg_type :: "string option"
  cfg_value :: jsnum
  cfg_duration :: jsnum
  cfg_maxStacks :: jsnum
  cfg_currentStacks :: jsnum
  cfg_source :: "string option"
  cfg_createdAt :: "nat option"
  cfg_remainingDuration :: jsnum

record StatModifier =
  mod_id :: string
  mod_name :: string
  mod_statId :: string
  mod_type :: ModifierType
  mod_value :: rat
  mod_duration :: rat
  mod_maxStacks :: int
  mod_currentStacks :: int
  mod_source :: string
  mod_createdAt :: nat
  mod_remainingDuration :: rat

text \<open>The constructor, lines 61-79.\<close>

definition new_StatModifier :: "Env \<Rightarrow> ModifierConfig \<Rightarrow> StatModifier" where
  "new_StatModifier env config =
     (let duration = toNumber (cfg_duration config) (- 1)
      in \<lparr> mod_id = (if isNonEmptyString (cfg_id config) then sanitizeId env (cfg_id config)
                      else generateId env ''mod''),
           mod_name = toString (cfg_name config) ''Unnamed Modifier'',
           mod_statId = (if isNonEmptyString (cfg_statId config)
                         then sanitizeId env (cfg_statId config) else []),
           mod_type = validateModifierType (cfg_type config),
           mod_value = toNumber (cfg_value config) 0,
           mod_duration = duration,
           mod_maxStacks = toPositiveInt (cfg_maxStacks config) 1,
           mod_currentStacks = toPositiveInt (cfg_currentStacks config) 1,
           mod_source = toString (cfg_source config) [],
           mod_createdAt = now env,
           mod_remainingDuration = duration \<rparr>)"

text \<open>\<open>isActive()\<close>, lines 85-91.\<close>

definition isActive :: "StatModifier \<Rightarrow> bool" where
  "isActive m = (if mod_duration m < 0 then True else mod_remainingDuration m > 0)"

text \<open>
  \<open>tick()\<close>, lines 105-111. A method that mutates \<open>this\<close> returns its result together
  with the updated object.
\<close>

definition tick :: "StatModifier \<Rightarrow> bool \<times> StatModifier" where
  "tick m =
     (if mod_duration m < 0 then (True, m)
      else let m' = m\<lparr>mod_remainingDuration := max 0 (mod_remainingDuration m - 1)\<rparr>
           in (mod_remainingDuration m' > 0, m'))"

text \<open>\<open>addStacks(count)\<close>, lines 118-126.\<close>

definition addStacks :: "StatModifier \<Rightarrow> jsnum \<Rightarrow> int \<times> StatModifier" where
  "addStacks m count =
     (let toAdd = toPositiveInt count 1;
          m1 = m\<lparr>mod_currentStacks := min (mod_currentStacks m + toAdd) (mod_maxStacks m)\<rparr>;
          m2 = (if mod_duration m1 > 0 then m1\<lparr>mod_remainingDuration := mod_duration m1\<rparr>
                else m1)
      in (mod_currentStacks m2, m2))"

text \<open>\<open>removeStacks(count)\<close>, lines 133-137.\<close>

definition removeStacks :: "StatModifier \<Rightarrow> jsnum \<Rightarrow> int \<times> StatModifier" where
  "removeStacks m count =
     (let toRemove = toPositiveInt count 1;
          m1 = m\<lparr>mod_currentStacks := max 0 (mod_currentStacks m - toRemove)\<rparr>
      in (mod_currentStacks m1, m1))"

text \<open>\<open>getEffectiveValue()\<close>, lines 143-150.\<close>

definition getEffectiveValue :: "StatModifier \<Rightarrow> jsnum" where
  "getEffectiveValue m =
     (if mod_type m = OVERRIDE then Num (mod_value m)
      else SafeMath_multiply (Num (mod_value m)) (Num (of_int (mod_currentStacks m))))"

text \<open>\<open>toJSON()\<close> and \<open>fromJSON(data)\<close>, lines 178-213.\<close>

definition StatModifier_toJSON :: "StatModifier \<Rightarrow> ModifierConfig" where
  "StatModifier_toJSON m =
     \<lparr> cfg_id = Some (mod_id m),
       cfg_name = Some (mod_name m),
       cfg_statId = Some (mod_statId m),
       cfg_type = Some (ModifierType_string (mod_type m)),
       cfg_value = Num (mod_value m),
       cfg_duration = Num (mod_duration m),
       cfg_maxStacks = Num (of_int (mod_maxStacks m)),
       cfg_currentStacks = Num (of_int (mod_currentStacks m)),
       cfg_source = Some (mod_source m),
       cfg_createdAt = Some (mod_createdAt m),
       cfg_remainingDuration = Num (mod_remainingDuration m) \<rparr>"

text \<open>The empty object \<open>{}\<close>.\<close>

definition empty_config :: ModifierConfig where
  "empty_config =
     \<lparr> cfg_id = None, cfg_name = None, cfg_statId = None, cfg_type = None,
       cfg_value = Undefined, cfg_duration = Undefined, cfg_maxStacks = Undefined,
       cfg_currentStacks = Undefined, cfg_source = None, cfg_createdAt = None,
       cfg_remainingDuration = Undefined \<rparr>"

fun typeof_number :: "jsnum \<Rightarrow> bool" where
  "typeof_number Undefined = False"
| "typeof_number Null = False"
| "typeof_number EmptyStr = False"
| "typeof_number (Num r) = True"
| "typeof_number NaN = True"
| "typeof_number PosInf = True"
| "typeof_number NegInf = True"

text \<open>\<open>data\<close> is \<open>None\<close> when it is not an object.\<close>

definition StatModifier_fromJSON :: "Env \<Rightarrow> ModifierConfig option \<Rightarrow> StatModifier" where
  "StatModifier_fromJSON env data =
     (case data of
        None \<Rightarrow> new_StatModifier env empty_config
      | Some d \<Rightarrow>
          let modifier = new_StatModifier env d;
              modifier1 = (if typeof_number (cfg_remainingDuration d)
                           then modifier\<lparr>mod_remainingDuration :=
                                  toNumber (cfg_remainingDuration d) (mod_duration modifier)\<rparr>
                           else modifier);
              modifier2 = (case cfg_createdAt d of
                             Some t \<Rightarrow> modifier1\<lparr>mod_createdAt := t\<rparr>
                           | None \<Rightarrow> modifier1)
          in modifier2)"

subsection \<open>ModifierCollection\<close>

text \<open>
  The collection's \<open>Map\<close> from modifier id to modifier is a list of pairs in insertion
  order: \<open>Map_set\<close> replaces the value of a key in place or appends a new entry,
  as \<open>Map.prototype.set\<close> does.
\<close>

record ModifierCollection =
  coll_statId :: string
  modifiers :: "(string \<times> StatModifier) list"

fun Map_set :: "('k \<times> 'v) list \<Rightarrow> 'k \<Rightarrow> 'v \<Rightarrow> ('k \<times> 'v) list" where
  "Map_set [] k v = [(k, v)]"
| "Map_set ((k', v') # kvs) k v =
     (if k' = k then (k, v) # kvs else (k', v') # Map_set kvs k v)"

definition new_ModifierCollection :: "Env \<Rightarrow> string option \<Rightarrow> ModifierCollection" where
  "new_ModifierCollection env sid = \<lparr> coll_statId = sanitizeId env sid, modifiers = [] \<rparr>"

text \<open>
  \<open>add(modifier)\<close>, lines 245-278: the argument is a \<open>StatModifier\<close> (\<open>Inl\<close>) or a plain
  configuration object (\<open>Inr\<close>). The result is the returned modifier (\<open>None\<close> for
  \<open>null\<close>) and the updated collection.
\<close>

definition ModifierCollection_add ::
  "Env \<Rightarrow> ModifierCollection \<Rightarrow> StatModifier + ModifierConfig
     \<Rightarrow> StatModifier option \<times> ModifierCollection" where
  "ModifierCollection_add env c modifier =
     (let mod0 = (case modifier of Inl m \<Rightarrow> m | Inr config \<Rightarrow> new_StatModifier env config)
      in if mod_statId mod0 \<noteq> [] \<and> mod_statId mod0 \<noteq> coll_statId c then (None, c)
         else
           let mod1 = mod0\<lparr>mod_statId := coll_statId c\<rparr>
           in case map_of (modifiers c) (mod_id mod1) of
                Some existing \<Rightarrow>
                  if mod_currentStacks existing < mod_maxStacks existing
                  then let e = snd (addStacks existing (Num 1))
                       in (Some e, c\<lparr>modifiers := Map_set (modifiers c) (mod_id mod1) e\<rparr>)
                  else let e = (if mod_duration existing > 0
                                then existing\<lparr>mod_remainingDuration := mod_duration existing\<rparr>
                                else existing)
                       in (Some e, c\<lparr>modifiers := Map_set (modifiers c) (mod_id mod1) e\<rparr>)
              | None \<Rightarrow> (Some mod1, c\<lparr>modifiers := Map_set (modifiers c) (mod_id mod1) mod1\<rparr>))"

text \<open>\<open>getActive()\<close>, lines 311-313.\<close>

definition getActive :: "ModifierCollection \<Rightarrow> StatModifier list" where
  "getActive c = filter isActive (map snd (modifiers c))"

text \<open>
  \<open>applyAll(baseValue)\<close>, lines 331-366. \<open>later_override\<close> is the callback given to
  \<open>reduce\<close>; \<open>reduce\<close> without an initial value starts from the first element, and is
  only reached with a non-empty array.
\<close>

definition later_override :: "StatModifier \<Rightarrow> StatModifier \<Rightarrow> StatModifier" where
  "later_override latest current =
     (if mod_createdAt current > mod_createdAt latest then current else latest)"

definition applyAll :: "ModifierCollection \<Rightarrow> jsnum \<Rightarrow> jsnum" where
  "applyAll c baseValue =
     (let base = toNumber baseValue 0;
          active = getActive c
      in if length active = 0 then Num base
         else
           let addMods = filter (\<lambda>m. mod_type m = ADD) active;
               multiplyMods = filter (\<lambda>m. mod_type m = MULTIPLY) active;
               overrideMods = filter (\<lambda>m. mod_type m = OVERRIDE) active
           in case overrideMods of
                m # ms \<Rightarrow> getEffectiveValue (foldl later_override m ms)
              | [] \<Rightarrow>
                  let result1 = foldl (\<lambda>result m. SafeMath_add result (getEffectiveValue m))
                                  (Num base) addMods
                  in foldl (\<lambda>result m. SafeMath_multiply result (getEffectiveValue m))
                       result1 multiplyMods)"

text \<open>
  \<open>tick()\<close> of the collection, lines 372-381: every entry is ticked in insertion order;
  an entry whose \<open>tick()\<close> returns \<open>false\<close> is deleted and its id recorded. Deleting the
  current entry of a \<open>Map\<close> during iteration does not disturb the iteration.
\<close>

fun tick_entries ::
  "(string \<times> StatModifier) list \<Rightarrow> (string \<times> StatModifier) list \<times> string list" where
  "tick_entries [] = ([], [])"
| "tick_entries ((k, m) # rest) =
     (let (alive, m') = tick m;
          (kept, removed) = tick_entries rest
      in if \<not> alive then (kept, k # removed) else ((k, m') # kept, removed))"

definition ModifierCollection_tick :: "ModifierCollection \<Rightarrow> string list \<times> ModifierCollection" where
  "ModifierCollection_tick c =
     (let (kept, removed) = tick_entries (modifiers c)
      in (removed, c\<lparr>modifiers := kept\<rparr>))"

subsection \<open>Sequences of calls\<close>

text \<open>
  The calls that change a modifier after its construction, and what a sequence of them
  leaves behind. \<open>ticks n m\<close> is the modifier after \<open>n\<close> calls of \<open>tick()\<close>, and
  \<open>collection_ticks n c\<close> the collection after \<open>n\<close> calls of its own \<open>tick()\<close>.
\<close>

datatype ModifierCall = Call_tick | Call_addStacks jsnum | Call_removeStacks jsnum

fun call :: "StatModifier \<Rightarrow> ModifierCall \<Rightarrow> StatModifier" where
  "call m Call_tick = snd (tick m)"
| "call m (Call_addStacks n) = snd (addStacks m n)"
| "call m (Call_removeStacks n) = snd (removeStacks m n)"

definition ticks :: "nat \<Rightarrow> StatModifier \<Rightarrow> StatModifier" where
  "ticks n m = ((\<lambda>x. snd (tick x)) ^^ n) m"

definition collection_ticks :: "nat \<Rightarrow> ModifierCollection \<Rightarrow> ModifierCollection" where
  "collection_ticks n c = ((\<lambda>x. snd (ModifierCollection_tick x)) ^^ n) c"

text \<open>
  The scenario of the repository's test of \<open>ModifierCollection\<close>: a collection for
  \<open>hp\<close> receives \<open>{id: 'buff1', type: 'add', value: 10}\<close>, then
  \<open>{id: 'buff2', type: 'multiply', value: 1.5}\<close>, then
  \<open>{id: 'override1', type: 'override', value: 50}\<close>.
\<close>

definition test_buff1 :: ModifierConfig where
  "test_buff1 = empty_config\<lparr>cfg_id := Some ''buff1'', cfg_type := Some ''add'',
                                cfg_value := Num 10\<rparr>"

definition test_buff2 :: ModifierConfig where
  "test_buff2 = empty_config\<lparr>cfg_id := Some ''buff2'', cfg_type := Some ''multiply'',
                                cfg_value := Num (3 / 2)\<rparr>"

definition test_override1 :: ModifierConfig where
  "test_override1 = empty_config\<lparr>cfg_id := Some ''override1'', cfg_type := Some ''override'',
                                    cfg_value := Num 50\<rparr>"

definition test_collection2 :: "Env \<Rightarrow> ModifierCollection" where
  "test_collection2 env =
     (let c0 = new_ModifierCollection env (Some ''hp'');
          c1 = snd (ModifierCollection_add env c0 (Inr test_buff1))
      in snd (ModifierCollection_add env c1 (Inr test_buff2)))"


text \<open>A clock reading and random digits for running examples.\<close>

definition test_env :: Env where
  "test_env = \<lparr> now = 1000, random36 = ''k3x9q2'' \<rparr>"

subsection \<open>Numeric strings\<close>

text \<open>
  \<open>Number(string)\<close> and \<open>parseFloat(string)\<close> share the grammar of a decimal literal: an
  optional sign, then \<open>Infinity\<close>, or digits with an optional fraction, or a fraction
  alone, and an optional exponent. \<open>decimal_prefix\<close> reads the longest such prefix and
  returns its value with the rest of the string, or \<open>None\<close> when no prefix is a literal.
  The value is the double nearest to the number the literal denotes, an infinity beyond
  the range of the doubles. Binary, octal and hexadecimal literals, which \<open>Number\<close> also
  accepts, need a letter after the leading zero and are not read.
\<close>

definition is_digit :: "char \<Rightarrow> bool" where
  "is_digit c = (let n = (of_char c :: nat) in 48 \<le> n \<and> n \<le> 57)"

definition digit_value :: "char \<Rightarrow> int" where
  "digit_value c = of_char c - 48"

definition digits_value :: "string \<Rightarrow> int" where
  "digits_value ds = foldl (\<lambda>acc c. 10 * acc + digit_value c) 0 ds"

definition read_exponent :: "string \<Rightarrow> int \<times> string" where
  "read_exponent s =
     (case s of
        [] \<Rightarrow> (0, s)
      | c # r \<Rightarrow>
          if c = CHR ''e'' \<or> c = CHR ''E'' then
            (let (neg, r1) = (case r of
                               [] \<Rightarrow> (False, r)
                             | d # r' \<Rightarrow> if d = CHR ''-'' then (True, r')
                                        else if d = CHR ''+'' then (False, r') else (False, r));
                 ds = takeWhile is_digit r1
             in if ds = [] then (0, s)
                else ((if neg then - digits_value ds else digits_value ds),
                      dropWhile is_digit r1))
          else (0, s))"

definition scale10 :: "rat \<Rightarrow> int \<Rightarrow> rat" where
  "scale10 x e = (if e \<ge> 0 then x * 10 ^ nat e else x / 10 ^ nat (- e))"

definition unsigned_decimal_prefix :: "string \<Rightarrow> (rat \<times> string) option" where
  "unsigned_decimal_prefix s =
     (let ints = takeWhile is_digit s;
          r1 = dropWhile is_digit s;
          (fracs, r2) = (case r1 of
                           [] \<Rightarrow> ([], r1)
                         | c # r \<Rightarrow> if c = CHR ''.''
                                    then (if ints = [] \<and> takeWhile is_digit r = [] then ([], r1)
                                          else (takeWhile is_digit r, dropWhile is_digit r))
                                    else ([], r1))
      in if ints = [] \<and> fracs = [] then None
         else
           let mantissa = of_int (digits_value ints)
                          + of_int (digits_value fracs) / 10 ^ length fracs;
               (e, r3) = read_exponent r2
           in Some (scale10 mantissa e, r3))"

definition decimal_prefix :: "string \<Rightarrow> (jsnum \<times> string) option" where
  "decimal_prefix s =
     (let (neg, r) = (case s of
                        [] \<Rightarrow> (False, s)
                      | c # r' \<Rightarrow> if c = CHR ''-'' then (True, r')
                                 else if c = CHR ''+'' then (False, r') else (False, s))
      in if take 8 r = ''Infinity'' then Some ((if neg then NegInf else PosInf), drop 8 r)
         else case unsigned_decimal_prefix r of
                None \<Rightarrow> None
              | Some (v, rest) \<Rightarrow> Some (to_double (if neg then - v else v), rest))"

text \<open>\<open>parseFloat(string)\<close>: leading white space is skipped, what follows the literal is ignored.\<close>

definition parseFloat :: "string \<Rightarrow> jsnum" where
  "parseFloat s =
     (case decimal_prefix (dropWhile is_space s) of None \<Rightarrow> NaN | Some (v, rest) \<Rightarrow> v)"

text \<open>
  \<open>Number(string)\<close>: the string, without the white space around it, must be a literal as
  a whole; the empty string is 0.
\<close>

definition Number_of_string :: "string \<Rightarrow> jsnum" where
  "Number_of_string s =
     (let t = trim s
      in if t = [] then Num 0
         else case decimal_prefix t of
                None \<Rightarrow> NaN
              | Some (v, rest) \<Rightarrow> if rest = [] then v else NaN)"

text \<open>
  \<open>toNumber(value, defaultValue)\<close> of Utils.js on a string argument, with a default that
  may be \<open>NaN\<close>: the parser calls \<open>toNumber(numStr, NaN)\<close>.
\<close>

definition toNumber_string :: "string \<Rightarrow> jsnum \<Rightarrow> jsnum" where
  "toNumber_string v d =
     (if v = [] then d
      else case Number_of_string v of
             Num r \<Rightarrow> Num r
           | _ \<Rightarrow> d)"

subsection \<open>Matching with backtracking\<close>

text \<open>
  The pieces of a regular expression, each given the matcher \<open>k\<close> of what follows it.
  A piece tries its alternatives in the order of the backtracking matcher (a greedy
  repetition tries one more repetition first) and returns the first success.
\<close>

definition re_lit :: "string \<Rightarrow> (string \<Rightarrow> 'a option) \<Rightarrow> string \<Rightarrow> 'a option" where
  "re_lit t k s = (if take (length t) s = t then k (drop (length t) s) else None)"

definition re_one :: "(char \<Rightarrow> bool) \<Rightarrow> (string \<Rightarrow> 'a option) \<Rightarrow> string \<Rightarrow> 'a option" where
  "re_one P k s = (case s of [] \<Rightarrow> None | c # r \<Rightarrow> if P c then k r else None)"

fun re_star :: "(char \<Rightarrow> bool) \<Rightarrow> (string \<Rightarrow> 'a option) \<Rightarrow> string \<Rightarrow> 'a option" where
  "re_star P k [] = k []"
| "re_star P k (c # r) =
     (if P c then (case re_star P k r of Some x \<Rightarrow> Some x | None \<Rightarrow> k (c # r))
      else k (c # r))"

definition re_plus :: "(char \<Rightarrow> bool) \<Rightarrow> (string \<Rightarrow> 'a option) \<Rightarrow> string \<Rightarrow> 'a option" where
  "re_plus P k s = re_one P (re_star P k) s"

definition re_opt ::
  "((string \<Rightarrow> 'a option) \<Rightarrow> string \<Rightarrow> 'a option) \<Rightarrow> (string \<Rightarrow> 'a option) \<Rightarrow> string \<Rightarrow> 'a option" where
  "re_opt piece k s = (case piece k s of Some x \<Rightarrow> Some x | None \<Rightarrow> k s)"

text \<open>The text between two positions of a match: \<open>s\<close> is the string from the first position on, \<open>s'\<close> from the second.\<close>

definition consumed :: "string \<Rightarrow> string \<Rightarrow> string" where
  "consumed s s' = take (length s - length s') s"

subsection \<open>The parser module\<close>

datatype ParseResultType = MODIFY | SET | INVALID

record ParserConfig =
  openTag :: string
  closeTag :: string
  separator :: string
  caseSensitive :: bool

definition default_config :: ParserConfig where
  "default_config = \<lparr> openTag = ''{{'', closeTag = ''}}'', separator = '':'', caseSensitive = False \<rparr>"

text \<open>A parsed command; the value of a valid command is \<open>Num v\<close>.\<close>

record ParsedCommand =
  cmd_raw :: string
  cmd_statId :: string
  cmd_value :: jsnum
  cmd_type :: ParseResultType
  cmd_isValid :: bool
  cmd_error :: string

definition is_id_start :: "char \<Rightarrow> bool" where
  "is_id_start c =
     (let n = (of_char c :: nat)
      in (97 \<le> n \<and> n \<le> 122) \<or> (65 \<le> n \<and> n \<le> 90) \<or> c = CHR ''_'')"

definition is_id_part :: "char \<Rightarrow> bool" where
  "is_id_part c = (is_id_start c \<or> is_digit c \<or> c = CHR ''-'')"

definition is_op :: "char \<Rightarrow> bool" where
  "is_op c = (c = CHR ''='' \<or> c = CHR ''+'' \<or> c = CHR ''-'')"

text \<open>
  The pattern of \<open>_buildPattern\<close>, lines 611-626 of the parser module, tried at the
  start of \<open>s\<close>:
  \<^verbatim>\<open>open\s*([a-zA-Z_][a-zA-Z0-9_\-]*)\s*sep\s*([=+\-]?\s*-?[0-9]+(?:\.[0-9]+)?)\s*close\<close>
  with the three tags taken literally; \<open>value_group\<close> is the second group. A match
  gives the two groups and the text after the match.
\<close>

definition value_group :: "(string \<Rightarrow> 'a option) \<Rightarrow> string \<Rightarrow> 'a option" where
  "value_group k =
     re_opt (re_one is_op) (re_star is_space (re_opt (re_one (\<lambda>c. c = CHR ''-''))
       (re_plus is_digit (re_opt (\<lambda>k'. re_one (\<lambda>c. c = CHR ''.'') (re_plus is_digit k')) k))))"

definition command_pattern :: "ParserConfig \<Rightarrow> string \<Rightarrow> (string \<times> string \<times> string) option" where
  "command_pattern cfg s =
     re_lit (openTag cfg) (re_star is_space (\<lambda>s1.
       re_one is_id_start (re_star is_id_part (\<lambda>s2.
         re_star is_space (re_lit (separator cfg) (re_star is_space (\<lambda>s3.
           value_group (\<lambda>s4.
             re_star is_space (re_lit (closeTag cfg) (\<lambda>s5.
               Some (consumed s1 s2, consumed s3 s4, s5))) s4) s3))) s2)) s1)) s"

text \<open>\<open>_parseCommand(raw, statId, valueStr)\<close>, lines 635-681.\<close>

definition parseCommand :: "ParserConfig \<Rightarrow> string \<Rightarrow> string \<Rightarrow> string \<Rightarrow> ParsedCommand" where
  "parseCommand cfg raw statId valueStr =
     (let result = \<lparr> cmd_raw = raw, cmd_statId = [], cmd_value = Num 0, cmd_type = INVALID,
                      cmd_isValid = False, cmd_error = [] \<rparr>
      in if \<not> isNonEmptyString (Some statId) then result\<lparr>cmd_error := ''Empty stat ID''\<rparr>
         else
           let result1 = result\<lparr>cmd_statId := (if caseSensitive cfg then trim statId
                                                 else toLowerCase (trim statId))\<rparr>;
               trimmedValue = filter (\<lambda>c. \<not> is_space c) valueStr
           in if trimmedValue = [] then result1\<lparr>cmd_error := ''Empty value''\<rparr>
              else
                let result2 = (if take 1 trimmedValue = ''=''
                               then result1\<lparr>cmd_type := SET,
                                      cmd_value := toNumber_string (drop 1 trimmedValue) NaN\<rparr>
                               else result1\<lparr>cmd_type := MODIFY,
                                      cmd_value := toNumber_string trimmedValue NaN\<rparr>)
                in case cmd_value result2 of
                     Num v \<Rightarrow> result2\<lparr>cmd_isValid := True\<rparr>
                   | _ \<Rightarrow> result2\<lparr>cmd_error := ''Invalid number: '' @ valueStr,
                                 cmd_type := INVALID\<rparr>)"

text \<open>
  The loop of \<open>parse(text)\<close>, lines 696-703: \<open>exec\<close> finds the leftmost match at or
  after \<open>lastIndex\<close> and moves \<open>lastIndex\<close> to its end. \<open>scan cfg skip s\<close> walks the text
  from the current position; \<open>skip\<close> counts the characters still inside the last match.
\<close>

fun scan :: "ParserConfig \<Rightarrow> nat \<Rightarrow> string \<Rightarrow> ParsedCommand list" where
  "scan cfg skip [] = []"
| "scan cfg skip (c # r) =
     (if skip > 0 then scan cfg (skip - 1) r
      else case command_pattern cfg (c # r) of
             None \<Rightarrow> scan cfg 0 r
           | Some (statId, valueStr, rest) \<Rightarrow>
               parseCommand cfg (consumed (c # r) rest) statId valueStr
                 # scan cfg (length (c # r) - length rest - 1) r)"

text \<open>\<open>parse(text)\<close> and \<open>parseValid(text)\<close>, lines 688-715.\<close>

definition parse :: "ParserConfig \<Rightarrow> string \<Rightarrow> ParsedCommand list" where
  "parse cfg text = (if \<not> isNonEmptyString (Some text) then [] else scan cfg 0 text)"

definition parseValid :: "ParserConfig \<Rightarrow> string \<Rightarrow> ParsedCommand list" where
  "parseValid cfg text = filter cmd_isValid (parse cfg text)"


subsection \<open>The parser of index.js\<close>

text \<open>
  The entries of \<open>parseValid\<close> in index.js carry \<open>statId\<close>, \<open>value\<close>, \<open>type\<close> and \<open>raw\<close>;
  \<open>parseFloat\<close> lets \<open>Infinity\<close> through, so the value is a \<open>jsnum\<close> other than \<open>NaN\<close>.
\<close>

record StandaloneCommand =
  sc_statId :: string
  sc_value :: jsnum
  sc_type :: ParseResultType
  sc_raw :: string

text \<open>
  The pattern of lines 323-328: the open tag, one or more characters other than the first
  character of the close tag, the close tag. The match gives the captured text and the text after.
\<close>

definition standalone_pattern :: "ParserConfig \<Rightarrow> string \<Rightarrow> (string \<times> string) option" where
  "standalone_pattern cfg s =
     re_lit (openTag cfg) (\<lambda>s1.
       re_plus (\<lambda>c. take 1 (closeTag cfg) \<noteq> [c]) (\<lambda>s2.
         re_lit (closeTag cfg) (\<lambda>s3. Some (consumed s1 s2, s3)) s2) s1) s"

text \<open>\<open>String.prototype.indexOf\<close>: the first position where \<open>t\<close> occurs in \<open>s\<close>, if any.\<close>

fun indexOf :: "string \<Rightarrow> string \<Rightarrow> nat option" where
  "indexOf [] t = (if t = [] then Some 0 else None)"
| "indexOf (c # r) t =
     (if take (length t) (c # r) = t then Some 0
      else case indexOf r t of None \<Rightarrow> None | Some i \<Rightarrow> Some (Suc i))"

text \<open>The body of the loop, lines 332-357: the command of one match, or \<open>None\<close> where the loop continues.\<close>

definition standalone_command :: "ParserConfig \<Rightarrow> string \<Rightarrow> string \<Rightarrow> StandaloneCommand option" where
  "standalone_command cfg raw inner =
     (let content = trim inner
      in case indexOf content (separator cfg) of
           None \<Rightarrow> None
         | Some sepIndex \<Rightarrow>
             let statId = trim (take sepIndex content);
                 valueStr = trim (drop (sepIndex + 1) content)
             in if statId = [] \<or> valueStr = [] then None
                else
                  let (type, valueStr1) = (if take 1 valueStr = ''='' then (SET, drop 1 valueStr)
                                           else (MODIFY, valueStr));
                      v = parseFloat valueStr1
                  in if v = NaN then None
                     else Some \<lparr> sc_statId = (if caseSensitive cfg then statId else toLowerCase statId),
                                 sc_value = v, sc_type = type, sc_raw = raw \<rparr>)"

fun standalone_scan :: "ParserConfig \<Rightarrow> nat \<Rightarrow> string \<Rightarrow> StandaloneCommand list" where
  "standalone_scan cfg skip [] = []"
| "standalone_scan cfg skip (c # r) =
     (if skip > 0 then standalone_scan cfg (skip - 1) r
      else case standalone_pattern cfg (c # r) of
             None \<Rightarrow> standalone_scan cfg 0 r
           | Some (inner, rest) \<Rightarrow>
               (case standalone_command cfg (consumed (c # r) rest) inner of
                  None \<Rightarrow> []
                | Some cmd \<Rightarrow> [cmd])
                 @ standalone_scan cfg (length (c # r) - length rest - 1) r)"

text \<open>\<open>parseValid(text)\<close> of index.js, lines 319-361; the text is a string.\<close>

definition standalone_parseValid :: "ParserConfig \<Rightarrow> string \<Rightarrow> StandaloneCommand list" where
  "standalone_parseValid cfg text = (if text = [] then [] else standalone_scan cfg 0 text)"

subsection \<open>Stat and StatManager (index.js)\<close>

text \<open>
  The module \<open>Stat.js\<close> that the state manager imports is not among the sources; the
  \<open>Stat\<close> and \<open>StatManager\<close> classes modelled here are those of index.js, lines 90-236,
  with the helpers of lines 39-64. A numeric field of a configuration object is
  \<open>Some r\<close> for the finite number \<open>r\<close> and \<open>None\<close> for anything \<open>parseFloat\<close> turns into
  \<open>NaN\<close> (a missing field, \<open>null\<close>, \<open>NaN\<close>); \<open>Infinity\<close>, which \<open>parseFloat\<close> returns
  unchanged, is not represented.
\<close>

text \<open>\<open>toNumber(val, defaultVal)\<close>, index.js lines 49-52.\<close>

fun index_toNumber :: "rat option \<Rightarrow> rat \<Rightarrow> rat" where
  "index_toNumber None d = d"
| "index_toNumber (Some r) d = r"

text \<open>\<open>generateId(prefix)\<close>, index.js lines 54-56.\<close>

definition index_generateId :: "Env \<Rightarrow> string \<Rightarrow> string" where
  "index_generateId env prefix =
     prefix @ ''_'' @ to_radix 10 (now env) @ ''_'' @ take 9 (random36 env)"

text \<open>\<open>sanitizeId(str)\<close>, index.js lines 58-64.\<close>

definition index_sanitizeId :: "string option \<Rightarrow> string" where
  "index_sanitizeId str =
     take 32 (collapse_underscores (replace_invalid (toLowerCase (toString str ''stat''))))"

record StatConfig =
  scfg_id :: "string option"
  scfg_name :: "string option"
  scfg_baseValue :: "rat option"
  scfg_currentValue :: "rat option"
  scfg_minValue :: "rat option"
  scfg_maxValue :: "rat option"
  scfg_color :: "string option"
  scfg_displayMode :: "string option"
  scfg_showInUI :: "bool option"
  scfg_category :: "string option"

record Stat =
  stat_id :: string
  stat_name :: string
  baseValue :: rat
  currentValue :: rat
  minValue :: rat
  maxValue :: rat
  color :: string
  displayMode :: string
  showInUI :: bool
  category :: string
  lastChange :: rat

text \<open>The constructor, index.js lines 91-103. An empty \<open>displayMode\<close> is falsy.\<close>

definition new_Stat :: "Env \<Rightarrow> StatConfig \<Rightarrow> Stat" where
  "new_Stat env config =
     (let base = index_toNumber (scfg_baseValue config) 100
      in \<lparr> stat_id = (if isNonEmptyString (scfg_id config) then index_sanitizeId (scfg_id config)
                       else index_generateId env ''stat''),
           stat_name = toString (scfg_name config) ''Unnamed Stat'',
           baseValue = base,
           currentValue = index_toNumber (scfg_currentValue config) base,
           minValue = index_toNumber (scfg_minValue config) 0,
           maxValue = index_toNumber (scfg_maxValue config) 100,
           color = toString (scfg_color config) ''#4a90d9'',
           displayMode = (case scfg_displayMode config of
                            None \<Rightarrow> ''fraction''
                          | Some m \<Rightarrow> if m = [] then ''fraction'' else m),
           showInUI = (scfg_showInUI config \<noteq> Some False),
           category = toString (scfg_category config) [],
           lastChange = 0 \<rparr>)"

text \<open>The object returned by \<open>modify\<close> and \<open>set\<close>.\<close>

record ChangeResult =
  oldValue :: rat
  newValue :: rat
  actualChange :: rat

text \<open>\<open>modify(delta)\<close>, index.js lines 115-120, with a finite \<open>delta\<close>.\<close>

definition Stat_modify :: "Stat \<Rightarrow> rat \<Rightarrow> ChangeResult \<times> Stat" where
  "Stat_modify s delta =
     (let old = currentValue s;
          s1 = s\<lparr>currentValue := max (minValue s) (min (maxValue s) (currentValue s + delta))\<rparr>;
          s2 = s1\<lparr>lastChange := currentValue s1 - old\<rparr>
      in (\<lparr> oldValue = old, newValue = currentValue s2, actualChange = lastChange s2 \<rparr>, s2))"

text \<open>\<open>set(value)\<close>, index.js lines 122-127, with a finite \<open>value\<close>.\<close>

definition Stat_set :: "Stat \<Rightarrow> rat \<Rightarrow> ChangeResult \<times> Stat" where
  "Stat_set s v =
     (let old = currentValue s;
          s1 = s\<lparr>currentValue := max (minValue s) (min (maxValue s) v)\<rparr>;
          s2 = s1\<lparr>lastChange := currentValue s1 - old\<rparr>
      in (\<lparr> oldValue = old, newValue = currentValue s2, actualChange = lastChange s2 \<rparr>, s2))"

text \<open>\<open>setBounds(min, max)\<close>, index.js lines 133-140.\<close>

definition setBounds :: "Stat \<Rightarrow> rat option \<Rightarrow> rat option \<Rightarrow> Stat" where
  "setBounds s lo hi =
     (let s1 = s\<lparr>minValue := index_toNumber lo 0, maxValue := index_toNumber hi 100\<rparr>;
          s2 = (if minValue s1 > maxValue s1
                then s1\<lparr>minValue := maxValue s1, maxValue := minValue s1\<rparr> else s1)
      in s2\<lparr>currentValue := max (minValue s2) (min (maxValue s2) (currentValue s2))\<rparr>)"

text \<open>A sequence of \<open>modify\<close> and \<open>set\<close> calls on one stat.\<close>

datatype StatCall = Call_modify rat | Call_set rat

fun stat_call :: "Stat \<Rightarrow> StatCall \<Rightarrow> Stat" where
  "stat_call s (Call_modify delta) = snd (Stat_modify s delta)"
| "stat_call s (Call_set v) = snd (Stat_set s v)"




subsection \<open>StateManager.processMessage\<close>










text \<open>
  The stat of the specification's example and of the repository's tests: \<open>hp\<close> with base
  and maximum 100, in the current state of a state manager with the default settings.
\<close>

definition empty_stat_config :: StatConfig where
  "empty_stat_config =
     \<lparr> scfg_id = None, scfg_name = None, scfg_baseValue = None, scfg_currentValue = None,
       scfg_minValue = None, scfg_maxValue = None, scfg_color = None, scfg_displayMode = None,
       scfg_showInUI = None, scfg_category = None \<rparr>"



subsection \<open>Canonical command tokens\<close>

text \<open>
  The command syntax of the specification, to compare the two parsers on:
  \<open>{{ws statId ws : ws value ws}}\<close> with a stat id \<open>[A-Za-z_][A-Za-z0-9_-]*\<close>, the
  separator \<open>:\<close> and a value that is a number, \<open>+\<close> or \<open>-\<close> and a number, or \<open>=\<close>, white
  space, and a number with or without a \<open>-\<close> before it; a number is digits with an
  optional fraction, and each \<open>ws\<close> is any white space. \<open>token_text\<close> is the text of
  such a token, \<open>token_command\<close> the stat id, value and type it stands for, and
  \<open>tokens_text\<close> a text made of tokens, each after a stretch of other text, with a last
  stretch at the end.
\<close>

datatype TokenOp = Op_none | Op_plus | Op_minus | Op_set | Op_set_minus

text \<open>The characters of the operator, and the type and the sign it gives the command.\<close>

fun op_text :: "TokenOp \<Rightarrow> string" where
  "op_text Op_none = []"
| "op_text Op_plus = ''+''"
| "op_text Op_minus = ''-''"
| "op_text Op_set = ''=''"
| "op_text Op_set_minus = ''=-''"

fun op_type :: "TokenOp \<Rightarrow> ParseResultType" where
  "op_type Op_set = SET"
| "op_type Op_set_minus = SET"
| "op_type Op_none = MODIFY"
| "op_type Op_plus = MODIFY"
| "op_type Op_minus = MODIFY"

fun op_negative :: "TokenOp \<Rightarrow> bool" where
  "op_negative Op_minus = True"
| "op_negative Op_set_minus = True"
| "op_negative Op_none = False"
| "op_negative Op_plus = False"
| "op_negative Op_set = False"

record CommandToken =
  tok_ws_open :: string
  tok_id :: string
  tok_ws_id :: string
  tok_ws_sep :: string
  tok_op :: TokenOp
  tok_ws_set :: string
  tok_digits :: string
  tok_fraction :: string
  tok_ws_close :: string

fun wf_id :: "string \<Rightarrow> bool" where
  "wf_id [] = False"
| "wf_id (c # r) = (is_id_start c \<and> list_all is_id_part r)"

definition wf_token :: "CommandToken \<Rightarrow> bool" where
  "wf_token t =
     (wf_id (tok_id t) \<and> tok_digits t \<noteq> [] \<and> list_all is_digit (tok_digits t)
      \<and> list_all is_digit (tok_fraction t)
      \<and> list_all is_space (tok_ws_open t) \<and> list_all is_space (tok_ws_id t)
      \<and> list_all is_space (tok_ws_sep t) \<and> list_all is_space (tok_ws_set t)
      \<and> list_all is_space (tok_ws_close t))"

definition number_text :: "CommandToken \<Rightarrow> string" where
  "number_text t =
     tok_digits t @ (if tok_fraction t = [] then [] else ''.'' @ tok_fraction t)"

text \<open>The value: white space is placed after the \<open>=\<close> of a \<open>SET\<close> command only.\<close>

definition value_text :: "CommandToken \<Rightarrow> string" where
  "value_text t =
     (case tok_op t of
        Op_none \<Rightarrow> number_text t
      | Op_plus \<Rightarrow> ''+'' @ number_text t
      | Op_minus \<Rightarrow> ''-'' @ number_text t
      | Op_set \<Rightarrow> ''='' @ tok_ws_set t @ number_text t
      | Op_set_minus \<Rightarrow> ''='' @ tok_ws_set t @ ''-'' @ number_text t)"

definition token_text :: "CommandToken \<Rightarrow> string" where
  "token_text t =
     ''{{'' @ tok_ws_open t @ tok_id t @ tok_ws_id t @ '':'' @ tok_ws_sep t
       @ value_text t @ tok_ws_close t @ ''}}''"

text \<open>The number a token denotes, and the double it is read as.\<close>

definition token_value :: "CommandToken \<Rightarrow> rat" where
  "token_value t =
     (let v = of_int (digits_value (tok_digits t))
              + of_int (digits_value (tok_fraction t)) / 10 ^ length (tok_fraction t)
      in if op_negative (tok_op t) then - v else v)"

definition token_command :: "CommandToken \<Rightarrow> string \<times> jsnum \<times> ParseResultType" where
  "token_command t = (toLowerCase (tok_id t), to_double (token_value t), op_type (tok_op t))"

definition in_double_range :: "CommandToken \<Rightarrow> bool" where
  "in_double_range t = (case to_double (token_value t) of Num v \<Rightarrow> True | _ \<Rightarrow> False)"

fun tokens_text :: "(string \<times> CommandToken) list \<Rightarrow> string \<Rightarrow> string" where
  "tokens_text [] post = post"
| "tokens_text ((pre, t) # segs) post = pre @ token_text t @ tokens_text segs post"

text \<open>
  \<open>no_open_tag s\<close>: the open tag \<open>{{\<close> does not occur in \<open>s\<close>. The text before a token
  must not end in \<open>{\<close> either, or an open tag would begin in it.
\<close>

fun no_open_tag :: "string \<Rightarrow> bool" where
  "no_open_tag (c # d # r) = (\<not> (c = CHR ''{'' \<and> d = CHR ''{'') \<and> no_open_tag (d # r))"
| "no_open_tag r = True"

fun wf_segments :: "(string \<times> CommandToken) list \<Rightarrow> bool" where
  "wf_segments [] = True"
| "wf_segments ((pre, t) # segs) =
     (no_open_tag (pre @ ''{'') \<and> wf_token t \<and> in_double_range t \<and> wf_segments segs)"

section \<open>Verified properties\<close>

subsection \<open>Properties of the rounding\<close>

lemma pow2_powi: "pow2 e = power_int 2 e"
  unfolding pow2_def power_int_def by (simp add: power_inverse inverse_eq_divide flip: power_one_over)

lemma pow2_pos [simp]: "0 < pow2 e"
  unfolding pow2_powi by simp

lemma pow2_nonzero [simp]: "pow2 e \<noteq> 0"
  unfolding pow2_powi by simp

lemma pow2_add: "pow2 (a + b) = pow2 a * pow2 b"
  unfolding pow2_powi by (simp add: power_int_add)

lemma pow2_diff: "pow2 (a - b) = pow2 a / pow2 b"
  unfolding pow2_powi by (simp add: power_int_diff)

lemma pow2_mono: "a \<le> b \<Longrightarrow> pow2 a \<le> pow2 b"
  unfolding pow2_powi by (simp add: power_int_increasing)

lemma pow2_strict_mono: "a < b \<Longrightarrow> pow2 a < pow2 b"
  unfolding pow2_powi by (simp add: power_int_strict_increasing)

lemma pow2_less_cancel: "pow2 a < pow2 b \<Longrightarrow> a < b"
  using pow2_mono [of b a] by (cases "a < b") auto

lemma pow2_le_cancel: "pow2 a \<le> pow2 b \<Longrightarrow> a \<le> b"
  using pow2_strict_mono [of b a] by (cases "a \<le> b") auto

lemma pow2_nat: "pow2 (int n) = 2 ^ n"
  by (simp add: pow2_def)

lemma pow2_bitlen:
  assumes "0 < p"
  shows "pow2 (bitlen p - 1) \<le> of_int p" and "of_int p < pow2 (bitlen p)"
proof -
  have b: "1 \<le> bitlen p"
    using assms by (simp add: bitlen_alt_def)
  have lo: "2 ^ nat (bitlen p - 1) \<le> p" and hi: "p < 2 ^ nat (bitlen p)"
    using bitlen_bounds [OF assms] by simp_all
  have "(of_int (2 ^ nat (bitlen p - 1)) :: rat) \<le> of_int p"
    using lo by (simp only: of_int_le_iff)
  then show "pow2 (bitlen p - 1) \<le> of_int p"
    using b by (simp add: pow2_def)
  have "(of_int p :: rat) < of_int (2 ^ nat (bitlen p))"
    using hi by (simp only: of_int_less_iff)
  then show "of_int p < pow2 (bitlen p)"
    using b by (simp add: pow2_def)
qed

lemma binary_exponent_bounds:
  assumes "0 < x"
  shows "pow2 (binary_exponent x) \<le> x" and "x < pow2 (binary_exponent x + 1)"
proof -
  obtain p q where pq: "quotient_of x = (p, q)"
    by (cases "quotient_of x")
  have q: "0 < q"
    using pq by (rule quotient_of_denom_pos)
  have x: "x = of_int p / of_int q"
    using pq by (rule quotient_of_div)
  have p: "0 < p"
    using assms q unfolding x by (simp add: zero_less_divide_iff)
  define d where "d = bitlen p - bitlen q"
  have lower: "pow2 (d - 1) < x"
  proof -
    have "pow2 (d - 1) = pow2 (bitlen p - 1) / pow2 (bitlen q)"
      unfolding d_def using pow2_diff [of "bitlen p - 1" "bitlen q"] by (simp add: algebra_simps)
    also have "\<dots> \<le> of_int p / pow2 (bitlen q)"
      using pow2_bitlen(1) [OF p] by (intro divide_right_mono) (simp_all add: less_imp_le)
    also have "\<dots> < of_int p / of_int q"
      using pow2_bitlen(2) [OF q] p q by (simp add: divide_strict_left_mono)
    finally show ?thesis
      unfolding x .
  qed
  have upper: "x < pow2 (d + 1)"
  proof -
    have "x \<le> of_int p / pow2 (bitlen q - 1)"
      unfolding x using pow2_bitlen(1) [OF q] p q by (simp add: divide_left_mono)
    also have "\<dots> < pow2 (bitlen p) / pow2 (bitlen q - 1)"
      using pow2_bitlen(2) [OF p] by (intro divide_strict_right_mono) simp_all
    also have "\<dots> = pow2 (d + 1)"
      unfolding d_def using pow2_diff [of "bitlen p" "bitlen q - 1"] by (simp add: algebra_simps)
    finally show ?thesis .
  qed
  have e: "binary_exponent x = (if pow2 d \<le> x then d else d - 1)"
    by (simp add: binary_exponent_def pq d_def Let_def)
  show "pow2 (binary_exponent x) \<le> x"
    unfolding e using lower by auto
  show "x < pow2 (binary_exponent x + 1)"
    unfolding e using upper by auto
qed

lemma binary_exponent_less: "0 < x \<Longrightarrow> x < pow2 (k + 1) \<Longrightarrow> binary_exponent x \<le> k"
  using binary_exponent_bounds(1) [of x] pow2_less_cancel [of "binary_exponent x" "k + 1"] by simp

lemma binary_exponent_ge: "pow2 k \<le> x \<Longrightarrow> k \<le> binary_exponent x"
proof -
  assume k: "pow2 k \<le> x"
  then have "0 < x"
    using pow2_pos [of k] by linarith
  then have "x < pow2 (binary_exponent x + 1)"
    by (rule binary_exponent_bounds(2))
  then have "pow2 k < pow2 (binary_exponent x + 1)"
    using k by simp
  then show ?thesis
    using pow2_less_cancel by fastforce
qed

lemma round_half_even_close: "\<bar>of_int (round_half_even y) - y\<bar> \<le> 1 / 2"
proof -
  have "of_int \<lfloor>y\<rfloor> \<le> y" "y < of_int \<lfloor>y\<rfloor> + 1"
    by linarith+
  then show ?thesis
    unfolding round_half_even_def Let_def by auto
qed

lemma round_half_even_ge: "of_int n \<le> y \<Longrightarrow> n \<le> round_half_even y"
proof -
  assume "of_int n \<le> y"
  then have "n \<le> \<lfloor>y\<rfloor>"
    by (simp add: le_floor_iff)
  then show ?thesis
    unfolding round_half_even_def Let_def by auto
qed

lemma round_half_even_le: "y \<le> of_int n \<Longrightarrow> round_half_even y \<le> n"
proof -
  assume y: "y \<le> of_int n"
  have f: "of_int \<lfloor>y\<rfloor> \<le> y" "y < of_int \<lfloor>y\<rfloor> + 1"
    by linarith+
  have "\<lfloor>y\<rfloor> \<le> n"
    using y by (simp add: floor_le_iff)
  moreover have "\<lfloor>y\<rfloor> \<noteq> n" if "1 / 2 \<le> y - of_int \<lfloor>y\<rfloor>"
    using that y by auto
  ultimately show ?thesis
    unfolding round_half_even_def Let_def by auto
qed

lemma to_double_steps:
  assumes "x \<noteq> 0"
  defines "e \<equiv> max (binary_exponent \<bar>x\<bar>) (- 1022)"
  defines "y \<equiv> of_int (round_half_even (x / pow2 (e - 52))) * pow2 (e - 52)"
  shows "to_double x = (if pow2 1024 \<le> \<bar>y\<bar> then (if 0 < x then PosInf else NegInf) else Num y)"
    and "\<bar>y - x\<bar> \<le> pow2 (e - 53)"
proof -
  show "to_double x = (if pow2 1024 \<le> \<bar>y\<bar> then (if 0 < x then PosInf else NegInf) else Num y)"
    using assms(1) by (simp add: to_double_def Let_def e_def y_def)
  define u where "u = pow2 (e - 52)"
  have u: "0 < u"
    by (simp add: u_def)
  have "\<bar>of_int (round_half_even (x / u)) - x / u\<bar> \<le> 1 / 2"
    by (rule round_half_even_close)
  then have "\<bar>of_int (round_half_even (x / u)) - x / u\<bar> * u \<le> 1 / 2 * u"
    using u by (intro mult_right_mono) simp_all
  moreover have "\<bar>of_int (round_half_even (x / u)) - x / u\<bar> * u = \<bar>y - x\<bar>"
  proof -
    have "(of_int (round_half_even (x / u)) - x / u) * u = y - x"
      using u by (simp add: y_def u_def algebra_simps)
    then have "\<bar>y - x\<bar> = \<bar>of_int (round_half_even (x / u)) - x / u\<bar> * \<bar>u\<bar>"
      by (simp flip: abs_mult)
    then show ?thesis
      using u by simp
  qed
  moreover have "1 / 2 * u = pow2 (e - 53)"
    unfolding u_def using pow2_add [of "e - 53" 1] by (simp add: pow2_def)
  ultimately show "\<bar>y - x\<bar> \<le> pow2 (e - 53)"
    by simp
qed

lemma to_double_error:
  assumes "\<bar>x\<bar> < pow2 (k + 1)" and "- 1022 \<le> k" and "k \<le> 1022"
  shows "\<exists>y. to_double x = Num y \<and> \<bar>y - x\<bar> \<le> pow2 (k - 53)"
proof (cases "x = 0")
  case True
  then show ?thesis
    by (simp add: to_double_def less_imp_le)
next
  case False
  define e where "e = max (binary_exponent \<bar>x\<bar>) (- 1022)"
  define y where "y = of_int (round_half_even (x / pow2 (e - 52))) * pow2 (e - 52)"
  have "binary_exponent \<bar>x\<bar> \<le> k"
    using False assms(1) by (intro binary_exponent_less) simp_all
  then have ek: "e \<le> k"
    using assms(2) by (simp add: e_def)
  have err: "\<bar>y - x\<bar> \<le> pow2 (e - 53)"
    unfolding y_def e_def by (rule to_double_steps(2) [OF False])
  also have "\<dots> \<le> pow2 (k - 53)"
    using ek by (intro pow2_mono) simp
  finally have close: "\<bar>y - x\<bar> \<le> pow2 (k - 53)" .
  have "pow2 (k - 53) \<le> pow2 (k + 1)"
    by (intro pow2_mono) simp
  then have "\<bar>y\<bar> < pow2 (k + 1) + pow2 (k + 1)"
    using close assms(1) by linarith
  also have "\<dots> = pow2 (k + 2)"
    using pow2_add [of "k + 1" 1] by (simp add: pow2_def algebra_simps)
  also have "\<dots> \<le> pow2 1024"
    using assms(3) by (intro pow2_mono) simp
  finally have "\<not> pow2 1024 \<le> \<bar>y\<bar>"
    by simp
  then have "to_double x = Num y"
    using to_double_steps(1) [OF False] by (simp add: y_def e_def)
  then show ?thesis
    using close by simp
qed

lemma to_double_overflow:
  assumes "pow2 1024 \<le> x"
  shows "to_double x = PosInf"
proof -
  have pos: "0 < x"
    using assms pow2_pos [of 1024] by linarith
  define e where "e = max (binary_exponent \<bar>x\<bar>) (- 1022)"
  define u where "u = pow2 (e - 52)"
  define y where "y = of_int (round_half_even (x / u)) * u"
  have "1024 \<le> binary_exponent \<bar>x\<bar>"
    using assms pos by (intro binary_exponent_ge) simp
  then have e: "e = binary_exponent x" "1024 \<le> e"
    using pos by (simp_all add: e_def)
  have u: "0 < u"
    by (simp add: u_def)
  have "pow2 e \<le> x"
    unfolding e(1) using pos by (rule binary_exponent_bounds(1))
  moreover have "pow2 e = of_int (2 ^ 52) * u"
    unfolding u_def using pow2_add [of "e - 52" 52] by (simp add: pow2_def)
  ultimately have "of_int (2 ^ 52) \<le> x / u"
    using u by (simp add: pos_le_divide_eq)
  then have "2 ^ 52 \<le> round_half_even (x / u)"
    by (rule round_half_even_ge)
  then have "(of_int (2 ^ 52) :: rat) \<le> of_int (round_half_even (x / u))"
    by (simp only: of_int_le_iff)
  then have "of_int (2 ^ 52) * u \<le> y"
    unfolding y_def using u by (intro mult_right_mono) simp_all
  then have "pow2 e \<le> y"
    using \<open>pow2 e = of_int (2 ^ 52) * u\<close> by simp
  moreover have "pow2 1024 \<le> pow2 e"
    using e(2) by (rule pow2_mono)
  ultimately have "pow2 1024 \<le> \<bar>y\<bar>"
    by linarith
  then show ?thesis
    using to_double_steps(1) [of x] pos by (simp add: y_def u_def e_def)
qed

subsection \<open>SafeMath\<close>

lemma Math_round_close: "\<bar>of_int (Math_round x) - x\<bar> \<le> 1 / 2"
  unfolding Math_round_def by linarith

text \<open>
  The error of \<open>Math.round(x * 1e10) / 1e10\<close> on the double nearest to \<open>x\<close>, for \<open>x\<close> below
  \<open>2^(k+1)\<close> and \<open>x * 1e10\<close> below \<open>2^(j+1)\<close> in magnitude: twice the rounding error of a
  double of exponent \<open>k\<close>, and \<open>1e-10\<close> times the rounding error of a double of exponent
  \<open>j\<close> and the half that \<open>Math.round\<close> may add.
\<close>

lemma round_1e10_error:
  assumes x: "\<bar>x\<bar> \<le> M" and M: "M + 1 < pow2 (k + 1)" and k: "- 1022 \<le> k" "k \<le> 1022"
    and j: "- 1022 \<le> j" "j \<le> 1022" and Mj: "(M + 1) * 10 ^ 10 < pow2 (j + 1)"
    and E1: "pow2 (k - 53) \<le> 1 / 2" and E2: "(pow2 (j - 53) + 1 / 2) / 10 ^ 10 \<le> 1 / 2"
  shows "\<exists>u. round_1e10 (to_double x) = Num u
           \<and> \<bar>u - x\<bar> \<le> 2 * pow2 (k - 53) + (pow2 (j - 53) + 1 / 2) / 10 ^ 10"
proof -
  have "\<bar>x\<bar> < pow2 (k + 1)"
    using x M by linarith
  then obtain s where s: "to_double x = Num s" and es: "\<bar>s - x\<bar> \<le> pow2 (k - 53)"
    using to_double_error [OF _ k] by blast
  have sM: "\<bar>s\<bar> \<le> M + 1 / 2"
    using es E1 x by linarith
  have "\<bar>s * 10 ^ 10\<bar> = \<bar>s\<bar> * 10 ^ 10"
    by (simp add: abs_mult)
  also have "\<dots> \<le> (M + 1 / 2) * 10 ^ 10"
    using sM by (intro mult_right_mono) simp_all
  also have "\<dots> < pow2 (j + 1)"
    using Mj by (simp add: algebra_simps)
  finally obtain t where t: "to_double (s * 10 ^ 10) = Num t"
    and et: "\<bar>t - s * 10 ^ 10\<bar> \<le> pow2 (j - 53)"
    using to_double_error [OF _ j] by blast
  define r :: rat where "r = of_int (Math_round t)"
  define c :: rat where "c = 10 ^ 10"
  have c: "0 < c"
    by (simp add: c_def)
  have er: "\<bar>r - t\<bar> \<le> 1 / 2"
    unfolding r_def by (rule Math_round_close)
  have "\<bar>r - s * c\<bar> \<le> pow2 (j - 53) + 1 / 2"
    using et er unfolding c_def by linarith
  then have "\<bar>r - s * c\<bar> / c \<le> (pow2 (j - 53) + 1 / 2) / c"
    using c by (intro divide_right_mono) simp_all
  moreover have "\<bar>r - s * c\<bar> / c = \<bar>r / c - s\<bar>"
  proof -
    have "r / c - s = (r - s * c) / c"
      using c by (simp add: diff_divide_distrib)
    then show ?thesis
      using c by (simp add: abs_divide)
  qed
  ultimately have ed: "\<bar>r / 10 ^ 10 - s\<bar> \<le> (pow2 (j - 53) + 1 / 2) / 10 ^ 10"
    unfolding c_def by simp
  then have "\<bar>r / 10 ^ 10\<bar> \<le> M + 1"
    using sM E2 by linarith
  then have "\<bar>r / 10 ^ 10\<bar> < pow2 (k + 1)"
    using M by linarith
  then obtain u where u: "to_double (r / 10 ^ 10) = Num u"
    and eu: "\<bar>u - r / 10 ^ 10\<bar> \<le> pow2 (k - 53)"
    using to_double_error [OF _ k] by blast
  have "round_1e10 (Num s) = to_double (of_int (Math_round t) / 10 ^ 10)"
    unfolding round_1e10_def by (simp only: jsnum.case t)
  then have "round_1e10 (to_double x) = Num u"
    by (simp only: s u [unfolded r_def])
  moreover have "\<bar>u - x\<bar> \<le> 2 * pow2 (k - 53) + (pow2 (j - 53) + 1 / 2) / 10 ^ 10"
    using es ed eu by linarith
  ultimately show ?thesis
    by blast
qed

lemma round_1e10_two_million:
  assumes "\<bar>x\<bar> \<le> 2000000"
  shows "\<exists>u. round_1e10 (to_double x) = Num u \<and> \<bar>u - x\<bar> \<le> 5 / 10 ^ 10"
proof -
  obtain u where u: "round_1e10 (to_double x) = Num u"
    and e: "\<bar>u - x\<bar> \<le> 2 * pow2 (20 - 53) + (pow2 (54 - 53) + 1 / 2) / 10 ^ 10"
    using round_1e10_error [of x 2000000 20 54] assms by (auto simp: pow2_def)
  have "2 * pow2 (20 - 53) + (pow2 (54 - 53) + 1 / 2) / 10 ^ 10 \<le> 5 / 10 ^ 10"
    by (simp add: pow2_def)
  then have "\<bar>u - x\<bar> \<le> 5 / 10 ^ 10"
    by (rule order_trans [OF e])
  then show ?thesis
    using u by blast
qed

lemma round_1e10_one_million:
  assumes "\<bar>x\<bar> \<le> 1000001"
  shows "\<exists>u. round_1e10 (to_double x) = Num u \<and> \<bar>u - x\<bar> \<le> 3 / 10 ^ 10"
proof -
  obtain u where u: "round_1e10 (to_double x) = Num u"
    and e: "\<bar>u - x\<bar> \<le> 2 * pow2 (19 - 53) + (pow2 (53 - 53) + 1 / 2) / 10 ^ 10"
    using round_1e10_error [of x 1000001 19 53] assms by (auto simp: pow2_def)
  have "2 * pow2 (19 - 53) + (pow2 (53 - 53) + 1 / 2) / 10 ^ 10 \<le> 3 / 10 ^ 10"
    by (simp add: pow2_def)
  then have "\<bar>u - x\<bar> \<le> 3 / 10 ^ 10"
    by (rule order_trans [OF e])
  then show ?thesis
    using u by blast
qed

lemma add_then_subtract:
  assumes "\<bar>a\<bar> \<le> 1000000" and "\<bar>b\<bar> \<le> 1000000"
  shows "\<exists>s d. SafeMath_add (Num a) (Num b) = Num s \<and> \<bar>s - (a + b)\<bar> \<le> 5 / 10 ^ 10
           \<and> SafeMath_subtract (Num s) (Num b) = Num d \<and> \<bar>d - a\<bar> \<le> 8 / 10 ^ 10"
proof -
  have "\<bar>a + b\<bar> \<le> 2000000"
    using assms by linarith
  then obtain s where s: "round_1e10 (to_double (a + b)) = Num s"
    and es: "\<bar>s - (a + b)\<bar> \<le> 5 / 10 ^ 10"
    using round_1e10_two_million by blast
  have small: "(5::rat) / 10 ^ 10 \<le> 1" "(5::rat) / 10 ^ 10 + 3 / 10 ^ 10 = 8 / 10 ^ 10"
    by simp_all
  have "\<bar>s - b\<bar> \<le> 1000001"
    using es assms(1) small(1) by linarith
  then obtain d where d: "round_1e10 (to_double (s - b)) = Num d"
    and ed: "\<bar>d - (s - b)\<bar> \<le> 3 / 10 ^ 10"
    using round_1e10_one_million by blast
  have "\<bar>d - a\<bar> \<le> 8 / 10 ^ 10"
    using es ed small(2) by linarith
  then show ?thesis
    using s es d by (simp add: SafeMath_add_def SafeMath_subtract_def)
qed

text \<open>
  C7 (as amended). For finite \<open>a\<close> and \<open>b\<close> of magnitude at most \<open>1000000\<close>,
  \<open>SafeMath.add(a, b)\<close> is a finite number within \<open>1e-9\<close> of \<open>a + b\<close>, and subtracting
  \<open>b\<close> from it with \<open>SafeMath.subtract\<close> gives a finite number within \<open>1e-9\<close> of \<open>a\<close>.
  \<open>SafeMath.add(0.1, 0.2)\<close> is the double \<open>0.3\<close>. Each of the four operations converts
  its arguments with \<open>toNumber\<close>, performs the arithmetic in doubles, multiplies by
  \<open>1e10\<close>, rounds with \<open>Math.round\<close> and divides by \<open>1e10\<close>. \<open>SafeMath.divide\<close> with a
  zero divisor returns \<open>toNumber(defaultValue, 0)\<close>: the default it was given when that is
  a finite number, and \<open>0\<close> otherwise.
\<close>

theorem SafeMath_rounding_and_inverse:
  "(\<bar>a\<bar> \<le> 1000000 \<and> \<bar>b\<bar> \<le> 1000000 \<longrightarrow>
      (\<exists>s d. SafeMath_add (Num a) (Num b) = Num s \<and> \<bar>s - (a + b)\<bar> \<le> 1 / 10 ^ 9
         \<and> SafeMath_subtract (Num s) (Num b) = Num d \<and> \<bar>d - a\<bar> \<le> 1 / 10 ^ 9))
   \<and> SafeMath_add (to_double (1 / 10)) (to_double (2 / 10)) = to_double (3 / 10)
   \<and> SafeMath_add x y = round_1e10 (to_double (toNumber x 0 + toNumber y 0))
   \<and> SafeMath_subtract x y = round_1e10 (to_double (toNumber x 0 - toNumber y 0))
   \<and> SafeMath_multiply x y = round_1e10 (to_double (toNumber x 0 * toNumber y 0))
   \<and> (toNumber y 0 \<noteq> 0 \<longrightarrow>
        SafeMath_divide x y v = round_1e10 (to_double (toNumber x 0 / toNumber y 0)))
   \<and> (to_double (r * 10 ^ 10) = Num t \<longrightarrow>
        round_1e10 (Num r) = to_double (of_int (Math_round t) / 10 ^ 10))
   \<and> (toNumber y 0 = 0 \<longrightarrow> SafeMath_divide x y v = Num (toNumber v 0))
   \<and> SafeMath_divide x (Num 0) (Num w) = Num w"
proof -
  have A: "\<exists>s d. SafeMath_add (Num a) (Num b) = Num s \<and> \<bar>s - (a + b)\<bar> \<le> 1 / 10 ^ 9
         \<and> SafeMath_subtract (Num s) (Num b) = Num d \<and> \<bar>d - a\<bar> \<le> 1 / 10 ^ 9"
    if ha: "\<bar>a\<bar> \<le> 1000000" and hb: "\<bar>b\<bar> \<le> 1000000"
  proof -
    obtain s d where s: "SafeMath_add (Num a) (Num b) = Num s"
      and es: "\<bar>s - (a + b)\<bar> \<le> 5 / 10 ^ 10"
      and d: "SafeMath_subtract (Num s) (Num b) = Num d" and ed: "\<bar>d - a\<bar> \<le> 8 / 10 ^ 10"
      using add_then_subtract [OF ha hb] by blast
    have "(5::rat) / 10 ^ 10 \<le> 1 / 10 ^ 9" "(8::rat) / 10 ^ 10 \<le> 1 / 10 ^ 9"
      by simp_all
    then have "\<bar>s - (a + b)\<bar> \<le> 1 / 10 ^ 9" "\<bar>d - a\<bar> \<le> 1 / 10 ^ 9"
      using es ed by linarith+
    then show ?thesis
      using s d by blast
  qed
  have B: "SafeMath_add (to_double (1 / 10)) (to_double (2 / 10)) = to_double (3 / 10)"
    by code_simp
  have C: "round_1e10 (Num r) = to_double (of_int (Math_round t) / 10 ^ 10)"
    if "to_double (r * 10 ^ 10) = Num t"
    unfolding round_1e10_def by (simp only: jsnum.case that)
  have D: "SafeMath_add x y = round_1e10 (to_double (toNumber x 0 + toNumber y 0))"
    "SafeMath_subtract x y = round_1e10 (to_double (toNumber x 0 - toNumber y 0))"
    "SafeMath_multiply x y = round_1e10 (to_double (toNumber x 0 * toNumber y 0))"
    by (simp_all add: SafeMath_add_def SafeMath_subtract_def SafeMath_multiply_def)
  have E: "SafeMath_divide x y v = round_1e10 (to_double (toNumber x 0 / toNumber y 0))"
    if "toNumber y 0 \<noteq> 0"
    using that by (simp add: SafeMath_divide_def)
  have F: "SafeMath_divide x y v = Num (toNumber v 0)" if "toNumber y 0 = 0"
    using that by (simp add: SafeMath_divide_def)
  have G: "SafeMath_divide x (Num 0) (Num w) = Num w"
    by (simp add: SafeMath_divide_def)
  show ?thesis
    using A B C D E F G by blast
qed

text \<open>
  C7 as stated fails. \<open>SafeMath.add(1, 1)\<close> is \<open>2\<close> and \<open>SafeMath.subtract(1 + 1, 1)\<close>
  is \<open>1\<close>, which are not within \<open>1e-9\<close> of each other. Read as an inverse law, the
  statement still fails for large numbers: \<open>SafeMath.add(0.1, 20000000)\<close> is the double
  \<open>20000000.1\<close>, and subtracting \<open>20000000\<close> from it gives \<open>0.1000000015\<close>, which is
  \<open>1.5e-9\<close> away from \<open>0.1\<close>. And \<open>SafeMath.divide(1, 0, Infinity)\<close> is \<open>0\<close>, not the
  default it was given.
\<close>

theorem SafeMath_add_subtract_counterexample:
  "SafeMath_add (Num 1) (Num 1) = Num 2
   \<and> SafeMath_subtract (to_double (1 + 1)) (Num 1) = Num 1
   \<and> \<not> \<bar>toNumber (SafeMath_add (Num 1) (Num 1)) 0
          - toNumber (SafeMath_subtract (to_double (1 + 1)) (Num 1)) 0\<bar> \<le> 1 / 10 ^ 9
   \<and> SafeMath_add (to_double (1 / 10)) (Num 20000000) = to_double (200000001 / 10)
   \<and> SafeMath_subtract (to_double (200000001 / 10)) (Num 20000000)
        = to_double (1000000015 / 10 ^ 10)
   \<and> \<not> \<bar>toNumber (to_double (1000000015 / 10 ^ 10)) 0 - toNumber (to_double (1 / 10)) 0\<bar>
          \<le> 1 / 10 ^ 9
   \<and> SafeMath_divide (Num 1) (Num 0) PosInf = Num 0"
  by code_simp

theorem SafeMath_rounding_and_inverse_witness:
  "\<bar>1 / 4 :: rat\<bar> \<le> 1000000 \<and> \<bar>1000000 :: rat\<bar> \<le> 1000000
   \<and> toNumber (Num 4) 0 \<noteq> 0 \<and> toNumber Null 0 = 0
   \<and> to_double (1 / 4 * 10 ^ 10) = Num 2500000000
   \<and> (\<exists>s d. SafeMath_add (Num (1 / 4)) (Num 1000000) = Num s
         \<and> \<bar>s - (1 / 4 + 1000000)\<bar> \<le> 1 / 10 ^ 9
         \<and> SafeMath_subtract (Num s) (Num 1000000) = Num d \<and> \<bar>d - 1 / 4\<bar> \<le> 1 / 10 ^ 9)
   \<and> SafeMath_divide (Num 1) (Num 4) NaN = round_1e10 (to_double (1 / 4))
   \<and> round_1e10 (Num (1 / 4)) = to_double (of_int (Math_round 2500000000) / 10 ^ 10)
   \<and> SafeMath_divide (Num 1) Null NaN = Num 0"
proof -
  have h: "\<bar>1 / 4 :: rat\<bar> \<le> 1000000" "\<bar>1000000 :: rat\<bar> \<le> 1000000"
    "toNumber (Num 4) 0 \<noteq> 0" "toNumber Null 0 = 0"
    by simp_all
  have t: "to_double (1 / 4 * 10 ^ 10) = Num 2500000000"
    by code_simp
  show ?thesis
    using SafeMath_rounding_and_inverse [of "1 / 4" 1000000 "Num 1" "Num 4" NaN "1 / 4" 2500000000 1]
      SafeMath_rounding_and_inverse [of "1 / 4" 1000000 "Num 1" Null NaN "1 / 4" 2500000000 1]
      h t by simp
qed

subsection \<open>Entries of the modifier map\<close>


lemma Map_set_fresh: "map_of xs k = None \<Longrightarrow> Map_set xs k v = xs @ [(k, v)]"
  by (induction xs) (auto split: if_splits)

lemma Map_set_key_list:
  "map fst (Map_set xs k v) = (if k \<in> set (map fst xs) then map fst xs else map fst xs @ [k])"
  by (induction xs) (force simp: image_iff)+

lemma Map_set_keys: "set (map fst (Map_set xs k v)) = insert k (set (map fst xs))"
  unfolding Map_set_key_list by auto

lemma Map_set_distinct: "distinct (map fst xs) \<Longrightarrow> distinct (map fst (Map_set xs k v))"
proof (induction xs)
  case Nil
  then show ?case by simp
next
  case (Cons e xs)
  obtain k' v' where e: "e = (k', v')" by (cases e)
  show ?case
  proof (cases "k' = k")
    case True
    then show ?thesis using Cons.prems by (simp add: e)
  next
    case False
    have "k' \<notin> set (map fst (Map_set xs k v))"
      using Cons.prems False unfolding Map_set_keys by (simp add: e)
    then show ?thesis using Cons False by (simp add: e)
  qed
qed

lemma tick_entries_kept:
  "fst (tick_entries ((k, m) # rest)) =
     (if fst (tick m) then (k, snd (tick m)) # fst (tick_entries rest)
      else fst (tick_entries rest))"
  by (simp add: case_prod_unfold Let_def)

lemma tick_entries_gone:
  "snd (tick_entries ((k, m) # rest)) =
     (if fst (tick m) then snd (tick_entries rest) else k # snd (tick_entries rest))"
  by (simp add: case_prod_unfold Let_def)

lemma tick_entries_keys: "set (map fst (fst (tick_entries xs))) \<subseteq> set (map fst xs)"
proof (induction xs)
  case Nil
  then show ?case by simp
next
  case (Cons e xs)
  obtain k m where e: "e = (k, m)" by (cases e)
  show ?case
    unfolding e tick_entries_kept using Cons.IH by auto
qed

lemma tick_entries_gone_keys: "set (snd (tick_entries xs)) \<subseteq> set (map fst xs)"
proof (induction xs)
  case Nil
  then show ?case by simp
next
  case (Cons e xs)
  obtain k m where e: "e = (k, m)" by (cases e)
  show ?case
    unfolding e tick_entries_gone using Cons.IH by auto
qed

lemma tick_entries_distinct:
  "distinct (map fst xs) \<Longrightarrow> distinct (map fst (fst (tick_entries xs)))"
proof (induction xs)
  case Nil
  then show ?case by simp
next
  case (Cons e xs)
  obtain k m where e: "e = (k, m)" by (cases e)
  have "k \<notin> set (map fst (fst (tick_entries xs)))"
    using Cons.prems tick_entries_keys [of xs] by (auto simp: e)
  then show ?case
    unfolding e tick_entries_kept using Cons by simp
qed

lemma tick_entries_map_of:
  "distinct (map fst xs) \<Longrightarrow>
   map_of (fst (tick_entries xs)) k =
     (case map_of xs k of None \<Rightarrow> None
      | Some m \<Rightarrow> if fst (tick m) then Some (snd (tick m)) else None)"
proof (induction xs)
  case Nil
  then show ?case by simp
next
  case (Cons e xs)
  obtain k' m where e: "e = (k', m)" by (cases e)
  have notin: "k' \<notin> set (map fst xs)"
    using Cons.prems by (simp add: e)
  then have "k' \<notin> set (map fst (fst (tick_entries xs)))"
    using tick_entries_keys [of xs] by blast
  then have none: "map_of (fst (tick_entries xs)) k' = None"
    by (simp add: map_of_eq_None_iff)
  have none': "map_of xs k' = None"
    using notin by (simp add: map_of_eq_None_iff)
  have IH: "map_of (fst (tick_entries xs)) k =
     (case map_of xs k of None \<Rightarrow> None
      | Some m \<Rightarrow> if fst (tick m) then Some (snd (tick m)) else None)"
    using Cons by simp
  show ?case
  proof (cases "k = k'")
    case True
    then show ?thesis
      unfolding e tick_entries_kept using none by simp
  next
    case False
    then show ?thesis
      unfolding e tick_entries_kept using IH by simp
  qed
qed

lemma tick_entries_removed:
  "distinct (map fst xs) \<Longrightarrow>
   k \<in> set (snd (tick_entries xs)) \<longleftrightarrow> (\<exists>m. map_of xs k = Some m \<and> \<not> fst (tick m))"
proof (induction xs)
  case Nil
  then show ?case by simp
next
  case (Cons e xs)
  obtain k' m where e: "e = (k', m)" by (cases e)
  have notin: "k' \<notin> set (map fst xs)"
    using Cons.prems by (simp add: e)
  then have gone: "k' \<notin> set (snd (tick_entries xs))"
    using tick_entries_gone_keys [of xs] by blast
  have IH: "k \<in> set (snd (tick_entries xs)) \<longleftrightarrow> (\<exists>m. map_of xs k = Some m \<and> \<not> fst (tick m))"
    using Cons by simp
  show ?case
  proof (cases "k = k'")
    case True
    then show ?thesis
      unfolding e tick_entries_gone using gone by simp
  next
    case False
    then show ?thesis
      unfolding e tick_entries_gone using IH by simp
  qed
qed

subsection \<open>Adding to and ticking a collection\<close>

lemma add_fresh:
  assumes "map_of (modifiers c) (mod_id (new_StatModifier env cfg)) = None"
    and "ModifierCollection_add env c (Inr cfg) = (Some m, c')"
  shows "m = (new_StatModifier env cfg)\<lparr>mod_statId := coll_statId c\<rparr>"
    and "modifiers c' = modifiers c @ [(mod_id m, m)]"
proof -
  let ?n = "new_StatModifier env cfg"
  have ok: "\<not> (mod_statId ?n \<noteq> [] \<and> mod_statId ?n \<noteq> coll_statId c)"
    using assms(2) by (auto simp: ModifierCollection_add_def Let_def split: if_splits)
  have res: "ModifierCollection_add env c (Inr cfg) =
      (Some (?n\<lparr>mod_statId := coll_statId c\<rparr>),
       c\<lparr>modifiers := Map_set (modifiers c) (mod_id ?n) (?n\<lparr>mod_statId := coll_statId c\<rparr>)\<rparr>)"
    using ok assms(1) by (simp add: ModifierCollection_add_def Let_def)
  show m: "m = ?n\<lparr>mod_statId := coll_statId c\<rparr>"
    using res assms(2) by simp
  have "c' = c\<lparr>modifiers := Map_set (modifiers c) (mod_id ?n) m\<rparr>"
    using res assms(2) m by simp
  then show "modifiers c' = modifiers c @ [(mod_id m, m)]"
    using assms(1) by (simp add: Map_set_fresh m)
qed

lemma add_fresh_entry:
  assumes "distinct (map fst (modifiers c))"
    and "map_of (modifiers c) (mod_id (new_StatModifier env cfg)) = None"
    and "ModifierCollection_add env c (Inr cfg) = (Some m, c')"
  shows "map_of (modifiers c') (mod_id m) = Some m" and "distinct (map fst (modifiers c'))"
proof -
  have m: "m = (new_StatModifier env cfg)\<lparr>mod_statId := coll_statId c\<rparr>"
    and c': "modifiers c' = modifiers c @ [(mod_id m, m)]"
    using add_fresh [OF assms(2,3)] by simp_all
  have none: "map_of (modifiers c) (mod_id m) = None"
    using assms(2) by (simp add: m)
  then show "map_of (modifiers c') (mod_id m) = Some m"
    by (simp add: c' map_add_def)
  have "mod_id m \<notin> set (map fst (modifiers c))"
    using none by (simp add: map_of_eq_None_iff)
  then show "distinct (map fst (modifiers c'))"
    using assms(1) by (simp add: c')
qed

lemma collection_tick_map_of:
  "distinct (map fst (modifiers c)) \<Longrightarrow>
   map_of (modifiers (snd (ModifierCollection_tick c))) k =
     (case map_of (modifiers c) k of None \<Rightarrow> None
      | Some m \<Rightarrow> if fst (tick m) then Some (snd (tick m)) else None)"
  using tick_entries_map_of [of "modifiers c" k]
  by (simp add: ModifierCollection_tick_def case_prod_unfold Let_def)

lemma collection_tick_removed:
  "distinct (map fst (modifiers c)) \<Longrightarrow>
   k \<in> set (fst (ModifierCollection_tick c)) \<longleftrightarrow>
     (\<exists>m. map_of (modifiers c) k = Some m \<and> \<not> fst (tick m))"
  using tick_entries_removed [of "modifiers c" k]
  by (simp add: ModifierCollection_tick_def case_prod_unfold Let_def)

lemma collection_tick_distinct:
  "distinct (map fst (modifiers c)) \<Longrightarrow>
   distinct (map fst (modifiers (snd (ModifierCollection_tick c))))"
  using tick_entries_distinct [of "modifiers c"]
  by (simp add: ModifierCollection_tick_def case_prod_unfold Let_def)

lemma collection_ticks_Suc:
  "collection_ticks (Suc n) c = snd (ModifierCollection_tick (collection_ticks n c))"
  by (simp add: collection_ticks_def)

lemma ticks_Suc: "ticks (Suc n) m = snd (tick (ticks n m))"
  by (simp add: ticks_def)

lemma collection_ticks_distinct:
  "distinct (map fst (modifiers c)) \<Longrightarrow> distinct (map fst (modifiers (collection_ticks n c)))"
proof (induction n)
  case 0
  then show ?case by (simp add: collection_ticks_def)
next
  case (Suc n)
  then show ?case by (simp add: collection_ticks_Suc collection_tick_distinct)
qed

lemma collection_ticks_entry:
  assumes "distinct (map fst (modifiers c))" and "map_of (modifiers c) k = Some m"
    and "\<And>i. i < n \<Longrightarrow> fst (tick (ticks i m))"
  shows "map_of (modifiers (collection_ticks n c)) k = Some (ticks n m)"
  using assms(3)
proof (induction n)
  case 0
  then show ?case using assms(2) by (simp add: collection_ticks_def ticks_def)
next
  case (Suc n)
  have IH: "map_of (modifiers (collection_ticks n c)) k = Some (ticks n m)"
    using Suc by simp
  have alive: "fst (tick (ticks n m))"
    using Suc.prems by simp
  show ?case
    unfolding collection_ticks_Suc ticks_Suc
    using IH alive collection_ticks_distinct [OF assms(1), of n]
    by (simp add: collection_tick_map_of)
qed

subsection \<open>Life time of a modifier\<close>

lemma new_StatModifier_duration:
  "mod_duration (new_StatModifier env cfg) = toNumber (cfg_duration cfg) (- 1)"
  "mod_remainingDuration (new_StatModifier env cfg) = toNumber (cfg_duration cfg) (- 1)"
  by (simp_all add: new_StatModifier_def Let_def)

lemma tick_fields:
  "mod_duration (snd (tick m)) = mod_duration m"
  "mod_id (snd (tick m)) = mod_id m"
  by (simp_all add: tick_def Let_def)

lemma tick_remaining:
  "mod_remainingDuration (snd (tick m)) =
     (if mod_duration m < 0 then mod_remainingDuration m else max 0 (mod_remainingDuration m - 1))"
  by (simp add: tick_def Let_def)

lemma tick_result: "fst (tick m) = isActive (snd (tick m))"
  by (simp add: tick_def isActive_def Let_def)

lemma ticks_duration: "mod_duration (ticks n m) = mod_duration m"
  by (induction n) (simp_all add: ticks_Suc tick_fields, simp add: ticks_def)

lemma ticks_remaining_timed:
  assumes "0 \<le> mod_duration m" and "0 \<le> mod_remainingDuration m"
  shows "mod_remainingDuration (ticks n m) = max 0 (mod_remainingDuration m - of_nat n)"
proof (induction n)
  case 0
  then show ?case using assms(2) by (simp add: ticks_def)
next
  case (Suc n)
  have "max 0 (max 0 (mod_remainingDuration m - of_nat n) - 1)
      = max 0 (mod_remainingDuration m - of_nat (Suc n))"
    by (simp add: max_def)
  then show ?case
    using Suc assms(1) by (simp add: ticks_Suc tick_remaining ticks_duration)
qed

lemma ticks_permanent: "mod_duration m < 0 \<Longrightarrow> ticks n m = m"
  by (induction n) (simp_all add: ticks_Suc tick_def, simp add: ticks_def)

lemma isActive_ticks_timed:
  assumes "0 \<le> mod_duration m" and "0 \<le> mod_remainingDuration m"
  shows "isActive (ticks n m) \<longleftrightarrow> of_nat n < mod_remainingDuration m"
  using assms
  by (simp add: isActive_def ticks_duration ticks_remaining_timed [OF assms] max_def)

lemma tick_ticks_timed:
  assumes "0 \<le> mod_duration m" and "0 \<le> mod_remainingDuration m"
  shows "fst (tick (ticks n m)) \<longleftrightarrow> of_nat (Suc n) < mod_remainingDuration m"
  using isActive_ticks_timed [OF assms, of "Suc n"]
  by (simp only: ticks_Suc tick_result)

lemma stored_fields:
  "mod_duration (m\<lparr>mod_statId := s\<rparr>) = mod_duration m"
  "mod_remainingDuration (m\<lparr>mod_statId := s\<rparr>) = mod_remainingDuration m"
  "mod_id (m\<lparr>mod_statId := s\<rparr>) = mod_id m"
  by simp_all

lemma ticks_id: "mod_id (ticks n m) = mod_id m"
  by (induction n) (simp_all add: ticks_Suc tick_fields, simp add: ticks_def)

text \<open>
  C5. A modifier built with \<open>duration = 3\<close> is active after 0, 1 and 2 ticks and
  inactive after the third, whose \<open>tick()\<close> returns \<open>false\<close>. Once it has been added
  (under a fresh id) to a collection, the first two ticks of the collection keep it and
  do not report it, and the third reports its id and deletes it. A modifier built with
  \<open>duration = -1\<close> is active after any number of ticks, and no tick of its collection
  ever reports or deletes it.
\<close>

theorem timed_modifier_expires_permanent_stays:
  assumes "distinct (map fst (modifiers c))"
    and "map_of (modifiers c) (mod_id (new_StatModifier env (cfg\<lparr>cfg_duration := Num 3\<rparr>))) = None"
    and "ModifierCollection_add env c (Inr (cfg\<lparr>cfg_duration := Num 3\<rparr>)) = (Some m, c')"
    and "distinct (map fst (modifiers d))"
    and "map_of (modifiers d) (mod_id (new_StatModifier env (cfg\<lparr>cfg_duration := Num (- 1)\<rparr>))) = None"
    and "ModifierCollection_add env d (Inr (cfg\<lparr>cfg_duration := Num (- 1)\<rparr>)) = (Some p, d')"
  shows "isActive (new_StatModifier env (cfg\<lparr>cfg_duration := Num 3\<rparr>))
       \<and> isActive (ticks 1 (new_StatModifier env (cfg\<lparr>cfg_duration := Num 3\<rparr>)))
       \<and> isActive (ticks 2 (new_StatModifier env (cfg\<lparr>cfg_duration := Num 3\<rparr>)))
       \<and> \<not> isActive (ticks 3 (new_StatModifier env (cfg\<lparr>cfg_duration := Num 3\<rparr>)))
       \<and> \<not> fst (tick (ticks 2 (new_StatModifier env (cfg\<lparr>cfg_duration := Num 3\<rparr>))))
       \<and> mod_id m \<notin> set (fst (ModifierCollection_tick c'))
       \<and> map_of (modifiers (collection_ticks 1 c')) (mod_id m) = Some (ticks 1 m)
       \<and> mod_id m \<notin> set (fst (ModifierCollection_tick (collection_ticks 1 c')))
       \<and> map_of (modifiers (collection_ticks 2 c')) (mod_id m) = Some (ticks 2 m)
       \<and> isActive (ticks 2 m)
       \<and> mod_id m \<in> set (fst (ModifierCollection_tick (collection_ticks 2 c')))
       \<and> map_of (modifiers (collection_ticks 3 c')) (mod_id m) = None
       \<and> (\<forall>n. isActive (ticks n (new_StatModifier env (cfg\<lparr>cfg_duration := Num (- 1)\<rparr>)))
              \<and> map_of (modifiers (collection_ticks n d')) (mod_id p) = Some p
              \<and> isActive p
              \<and> mod_id p \<notin> set (fst (ModifierCollection_tick (collection_ticks n d'))))"
proof -
  let ?n3 = "new_StatModifier env (cfg\<lparr>cfg_duration := Num 3\<rparr>)"
  let ?np = "new_StatModifier env (cfg\<lparr>cfg_duration := Num (- 1)\<rparr>)"
  have n3: "mod_duration ?n3 = 3" "mod_remainingDuration ?n3 = 3"
    by (simp_all add: new_StatModifier_duration)
  have act3: "isActive (ticks n ?n3) \<longleftrightarrow> n < 3" for n
    using isActive_ticks_timed [of ?n3 n] n3 by simp
  have t3: "fst (tick (ticks n ?n3)) \<longleftrightarrow> Suc n < 3" for n
    using tick_ticks_timed [of ?n3 n] n3 by auto
  have m: "m = ?n3\<lparr>mod_statId := coll_statId c\<rparr>"
    using add_fresh(1) [OF assms(2,3)] .
  have md: "mod_duration m = 3" "mod_remainingDuration m = 3"
    using n3 by (simp_all add: m)
  have actm: "isActive (ticks n m) \<longleftrightarrow> n < 3" for n
    using isActive_ticks_timed [of m n] md by simp
  have tm: "fst (tick (ticks n m)) \<longleftrightarrow> Suc n < 3" for n
    using tick_ticks_timed [of m n] md by auto
  have entry: "map_of (modifiers c') (mod_id m) = Some m"
    and wf: "distinct (map fst (modifiers c'))"
    using add_fresh_entry [OF assms(1,2,3)] by simp_all
  have at: "map_of (modifiers (collection_ticks n c')) (mod_id m) = Some (ticks n m)" if "n < 3" for n
    using collection_ticks_entry [OF wf entry, of n] tm that by simp
  have wfn: "distinct (map fst (modifiers (collection_ticks n c')))" for n
    using collection_ticks_distinct [OF wf] .
  have rem: "mod_id m \<in> set (fst (ModifierCollection_tick (collection_ticks n c'))) \<longleftrightarrow> n = 2"
    if "n < 3" for n
    using at [OF that] tm [of n] that
    by (auto simp: collection_tick_removed [OF wfn])
  have gone: "map_of (modifiers (collection_ticks 3 c')) (mod_id m) = None"
  proof -
    have "collection_ticks 3 c' = snd (ModifierCollection_tick (collection_ticks 2 c'))"
      using collection_ticks_Suc [of 2 c'] by (simp add: numeral_3_eq_3 numeral_2_eq_2)
    then show ?thesis
      using at [of 2] tm [of 2] by (simp add: collection_tick_map_of [OF wfn])
  qed
  have c0: "collection_ticks 0 c' = c'"
    by (simp add: collection_ticks_def)
  have A: "isActive ?n3 \<and> isActive (ticks 1 ?n3) \<and> isActive (ticks 2 ?n3)
       \<and> \<not> isActive (ticks 3 ?n3) \<and> \<not> fst (tick (ticks 2 ?n3))"
    using act3 [of 0] act3 [of 1] act3 [of 2] act3 [of 3] t3 [of 2] by (simp add: ticks_def)
  have B: "mod_id m \<notin> set (fst (ModifierCollection_tick c'))
       \<and> map_of (modifiers (collection_ticks 1 c')) (mod_id m) = Some (ticks 1 m)
       \<and> mod_id m \<notin> set (fst (ModifierCollection_tick (collection_ticks 1 c')))
       \<and> map_of (modifiers (collection_ticks 2 c')) (mod_id m) = Some (ticks 2 m)
       \<and> isActive (ticks 2 m)
       \<and> mod_id m \<in> set (fst (ModifierCollection_tick (collection_ticks 2 c')))"
    using rem [of 0] rem [of 1] rem [of 2] at [of 1] at [of 2] actm [of 2] by (simp add: c0)
  have npd: "mod_duration ?np < 0"
    by (simp add: new_StatModifier_duration)
  have p: "p = ?np\<lparr>mod_statId := coll_statId d\<rparr>"
    using add_fresh(1) [OF assms(5,6)] .
  have pd: "mod_duration p < 0"
    using npd by (simp add: p)
  have pentry: "map_of (modifiers d') (mod_id p) = Some p"
    and pwf: "distinct (map fst (modifiers d'))"
    using add_fresh_entry [OF assms(4,5,6)] by simp_all
  have ptick: "fst (tick (ticks i p))" for i
    using pd by (simp add: ticks_permanent tick_def)
  have pat: "map_of (modifiers (collection_ticks n d')) (mod_id p) = Some p" for n
    using collection_ticks_entry [OF pwf pentry, of n] ptick pd by (simp add: ticks_permanent)
  have C: "isActive (ticks n ?np) \<and> map_of (modifiers (collection_ticks n d')) (mod_id p) = Some p
        \<and> isActive p
        \<and> mod_id p \<notin> set (fst (ModifierCollection_tick (collection_ticks n d')))" for n
    using pat [of n] pd npd ptick [of 0]
    by (simp add: ticks_permanent isActive_def tick_def
        collection_tick_removed [OF collection_ticks_distinct [OF pwf]])
  show ?thesis
    using A B gone C by blast
qed

subsection \<open>A modifier of duration zero\<close>

lemma call_keeps_zero:
  "mod_duration m = 0 \<and> mod_remainingDuration m = 0 \<Longrightarrow>
   mod_duration (call m x) = 0 \<and> mod_remainingDuration (call m x) = 0"
  by (cases x) (simp_all add: tick_def addStacks_def removeStacks_def Let_def)

lemma calls_keep_zero:
  "mod_duration m = 0 \<and> mod_remainingDuration m = 0 \<Longrightarrow>
   mod_duration (foldl call m xs) = 0 \<and> mod_remainingDuration (foldl call m xs) = 0"
proof (induction xs arbitrary: m)
  case Nil
  then show ?case by simp
next
  case (Cons x xs)
  show ?case
    using Cons.IH [OF call_keeps_zero [OF Cons.prems, of x]] by simp
qed

lemma applyAll_getActive_cong: "getActive c' = getActive c \<Longrightarrow> applyAll c' b = applyAll c b"
  by (simp add: applyAll_def)

text \<open>
  C10. A modifier built with \<open>duration = 0\<close> is inactive from the start and stays so
  under every sequence of \<open>tick\<close>, \<open>addStacks\<close> and \<open>removeStacks\<close> calls. Added under a
  fresh id to a collection, it leaves \<open>getActive\<close> and \<open>applyAll\<close> as they were, and the
  first \<open>tick()\<close> of the collection reports its id and deletes it.
\<close>

theorem zero_duration_modifier_never_active:
  assumes "distinct (map fst (modifiers c))"
    and "map_of (modifiers c) (mod_id (new_StatModifier env (cfg\<lparr>cfg_duration := Num 0\<rparr>))) = None"
    and "ModifierCollection_add env c (Inr (cfg\<lparr>cfg_duration := Num 0\<rparr>)) = (Some m, c')"
  shows "\<not> isActive (new_StatModifier env (cfg\<lparr>cfg_duration := Num 0\<rparr>))
       \<and> \<not> isActive (foldl call (new_StatModifier env (cfg\<lparr>cfg_duration := Num 0\<rparr>)) calls)
       \<and> \<not> isActive m
       \<and> \<not> isActive (foldl call m calls)
       \<and> getActive c' = getActive c
       \<and> applyAll c' b = applyAll c b
       \<and> mod_id m \<in> set (fst (ModifierCollection_tick c'))
       \<and> map_of (modifiers (snd (ModifierCollection_tick c'))) (mod_id m) = None"
proof -
  let ?n = "new_StatModifier env (cfg\<lparr>cfg_duration := Num 0\<rparr>)"
  have n: "mod_duration ?n = 0 \<and> mod_remainingDuration ?n = 0"
    by (simp add: new_StatModifier_duration)
  have m: "m = ?n\<lparr>mod_statId := coll_statId c\<rparr>"
    and c': "modifiers c' = modifiers c @ [(mod_id m, m)]"
    using add_fresh [OF assms(2,3)] by simp_all
  have md: "mod_duration m = 0 \<and> mod_remainingDuration m = 0"
    using n by (simp add: m)
  have inactive: "mod_duration x = 0 \<and> mod_remainingDuration x = 0 \<Longrightarrow> \<not> isActive x" for x
    by (simp add: isActive_def)
  have A: "\<not> isActive ?n" "\<not> isActive (foldl call ?n calls)"
    "\<not> isActive m" "\<not> isActive (foldl call m calls)"
    using inactive [OF n] inactive [OF calls_keep_zero [OF n]]
      inactive [OF md] inactive [OF calls_keep_zero [OF md]] by simp_all
  have act: "getActive c' = getActive c"
    using A(3) by (simp add: getActive_def c')
  have entry: "map_of (modifiers c') (mod_id m) = Some m"
    and wf: "distinct (map fst (modifiers c'))"
    using add_fresh_entry [OF assms] by simp_all
  have dead: "\<not> fst (tick m)"
    using md by (simp add: tick_def)
  have B: "mod_id m \<in> set (fst (ModifierCollection_tick c'))"
    using entry dead by (simp add: collection_tick_removed [OF wf])
  have C: "map_of (modifiers (snd (ModifierCollection_tick c'))) (mod_id m) = None"
    using entry dead by (simp add: collection_tick_map_of [OF wf])
  show ?thesis
    using A act applyAll_getActive_cong [OF act] B C by simp
qed

subsection \<open>Stack counts\<close>

lemma toPositiveInt_ge1: "1 \<le> toPositiveInt v d"
  by (simp add: toPositiveInt_def Let_def)

lemma new_StatModifier_stacks:
  "1 \<le> mod_currentStacks (new_StatModifier env cfg)" "1 \<le> mod_maxStacks (new_StatModifier env cfg)"
  by (simp_all add: new_StatModifier_def Let_def toPositiveInt_ge1)

lemma addStacks_bounds:
  "mod_currentStacks (snd (addStacks m n)) \<le> mod_maxStacks (snd (addStacks m n))"
  "mod_maxStacks (snd (addStacks m n)) = mod_maxStacks m"
  "0 \<le> mod_currentStacks m \<Longrightarrow> 0 \<le> mod_maxStacks m \<Longrightarrow> 0 \<le> mod_currentStacks (snd (addStacks m n))"
  "0 < mod_duration m \<Longrightarrow> mod_remainingDuration (snd (addStacks m n)) = mod_duration m"
  using toPositiveInt_ge1 [of n 1]
  by (simp_all add: addStacks_def Let_def)

lemma removeStacks_bounds:
  "0 \<le> mod_currentStacks (snd (removeStacks m n))"
  "mod_maxStacks (snd (removeStacks m n)) = mod_maxStacks m"
  "mod_currentStacks m \<le> mod_maxStacks m \<Longrightarrow> 0 \<le> mod_maxStacks m \<Longrightarrow>
     mod_currentStacks (snd (removeStacks m n)) \<le> mod_maxStacks m"
  using toPositiveInt_ge1 [of n 1]
  by (simp_all add: removeStacks_def Let_def)

text \<open>
  C6, at the failing input. The constructor takes \<open>currentStacks\<close> from its argument
  through \<open>toPositiveInt\<close> and does not compare it with \<open>maxStacks\<close>: built from
  \<open>{maxStacks: 1, currentStacks: 5}\<close>, directly or through \<open>fromJSON\<close>, the modifier
  has 5 stacks of at most 1.
\<close>

theorem constructor_stacks_above_maxStacks:
  "mod_currentStacks (new_StatModifier env
       (empty_config\<lparr>cfg_maxStacks := Num 1, cfg_currentStacks := Num 5\<rparr>)) = 5
   \<and> mod_maxStacks (new_StatModifier env
       (empty_config\<lparr>cfg_maxStacks := Num 1, cfg_currentStacks := Num 5\<rparr>)) = 1
   \<and> mod_currentStacks (StatModifier_fromJSON env
       (Some (empty_config\<lparr>cfg_maxStacks := Num 1, cfg_currentStacks := Num 5\<rparr>))) = 5
   \<and> mod_maxStacks (StatModifier_fromJSON env
       (Some (empty_config\<lparr>cfg_maxStacks := Num 1, cfg_currentStacks := Num 5\<rparr>))) = 1"
  by (simp add: StatModifier_fromJSON_def new_StatModifier_def empty_config_def
      toPositiveInt_def Let_def)

text \<open>
  C8, at the failing input. A modifier with one stack that loses it has
  \<open>currentStacks = 0\<close>; \<open>toJSON\<close> writes the 0, and \<open>fromJSON\<close> reads it back through
  \<open>toPositiveInt\<close> as 1.
\<close>

theorem StatModifier_roundtrip_loses_zero_stacks:
  "mod_currentStacks (snd (removeStacks (new_StatModifier env
       (empty_config\<lparr>cfg_id := Some ''buff'', cfg_statId := Some ''hp'', cfg_value := Num 10\<rparr>))
       (Num 1))) = 0
   \<and> cfg_currentStacks (StatModifier_toJSON (snd (removeStacks (new_StatModifier env
       (empty_config\<lparr>cfg_id := Some ''buff'', cfg_statId := Some ''hp'', cfg_value := Num 10\<rparr>))
       (Num 1)))) = Num 0
   \<and> mod_currentStacks (StatModifier_fromJSON env' (Some (StatModifier_toJSON
       (snd (removeStacks (new_StatModifier env
       (empty_config\<lparr>cfg_id := Some ''buff'', cfg_statId := Some ''hp'', cfg_value := Num 10\<rparr>))
       (Num 1)))))) = 1"
  by (simp add: StatModifier_fromJSON_def StatModifier_toJSON_def removeStacks_def
      new_StatModifier_def empty_config_def toPositiveInt_def Let_def)

subsection \<open>Aggregation\<close>




subsection \<open>The theorems above at concrete collections\<close>

text \<open>
  Each theorem with premises is used once on the collections of the test scenario, with
  its premises established by evaluation.
\<close>

theorem timed_modifier_expires_permanent_stays_witness:
  "distinct (map fst (modifiers (new_ModifierCollection test_env (Some ''hp''))))
   \<and> ModifierCollection_add test_env (new_ModifierCollection test_env (Some ''hp''))
        (Inr (test_buff1\<lparr>cfg_duration := Num 3\<rparr>)) \<noteq> (None, new_ModifierCollection test_env (Some ''hp''))
   \<and> ''buff1'' \<notin> set (fst (ModifierCollection_tick
        (snd (ModifierCollection_add test_env (new_ModifierCollection test_env (Some ''hp''))
           (Inr (test_buff1\<lparr>cfg_duration := Num 3\<rparr>))))))
   \<and> ''buff1'' \<in> set (fst (ModifierCollection_tick (collection_ticks 2
        (snd (ModifierCollection_add test_env (new_ModifierCollection test_env (Some ''hp''))
           (Inr (test_buff1\<lparr>cfg_duration := Num 3\<rparr>)))))))
   \<and> ''buff1'' \<notin> set (fst (ModifierCollection_tick (collection_ticks 7
        (snd (ModifierCollection_add test_env (new_ModifierCollection test_env (Some ''hp''))
           (Inr (test_buff1\<lparr>cfg_duration := Num (- 1)\<rparr>)))))))"
proof -
  let ?c = "new_ModifierCollection test_env (Some ''hp'')"
  let ?a = "ModifierCollection_add test_env ?c (Inr (test_buff1\<lparr>cfg_duration := Num 3\<rparr>))"
  let ?b = "ModifierCollection_add test_env ?c (Inr (test_buff1\<lparr>cfg_duration := Num (- 1)\<rparr>))"
  have h1: "distinct (map fst (modifiers ?c))"
    by (simp add: new_ModifierCollection_def)
  have h2: "map_of (modifiers ?c)
      (mod_id (new_StatModifier test_env (test_buff1\<lparr>cfg_duration := Num 3\<rparr>))) = None"
    by (simp add: new_ModifierCollection_def)
  have h3: "?a = (Some (the (fst ?a)), snd ?a)"
    by code_simp
  have h5: "map_of (modifiers ?c)
      (mod_id (new_StatModifier test_env (test_buff1\<lparr>cfg_duration := Num (- 1)\<rparr>))) = None"
    by (simp add: new_ModifierCollection_def)
  have h6: "?b = (Some (the (fst ?b)), snd ?b)"
    by code_simp
  have ida: "mod_id (the (fst ?a)) = ''buff1''"
    by code_simp
  have idb: "mod_id (the (fst ?b)) = ''buff1''"
    by code_simp
  have ne: "?a \<noteq> (None, ?c)"
    using h3 by (metis option.distinct(1) prod.inject)
  show ?thesis
    using timed_modifier_expires_permanent_stays [OF h1 h2 h3 h1 h5 h6] h1 ne
    unfolding ida idb by blast
qed

theorem zero_duration_modifier_never_active_witness:
  "distinct (map fst (modifiers (test_collection2 test_env)))
   \<and> applyAll (snd (ModifierCollection_add test_env (test_collection2 test_env)
        (Inr (test_override1\<lparr>cfg_duration := Num 0\<rparr>)))) (Num 100) = Num 165
   \<and> ''override1'' \<in> set (fst (ModifierCollection_tick
        (snd (ModifierCollection_add test_env (test_collection2 test_env)
           (Inr (test_override1\<lparr>cfg_duration := Num 0\<rparr>))))))"
proof -
  let ?c = "test_collection2 test_env"
  let ?a = "ModifierCollection_add test_env ?c (Inr (test_override1\<lparr>cfg_duration := Num 0\<rparr>))"
  have h1: "distinct (map fst (modifiers ?c))"
    by code_simp
  have h2: "map_of (modifiers ?c)
      (mod_id (new_StatModifier test_env (test_override1\<lparr>cfg_duration := Num 0\<rparr>))) = None"
    by code_simp
  have h3: "?a = (Some (the (fst ?a)), snd ?a)"
    by code_simp
  have ida: "mod_id (the (fst ?a)) = ''override1''"
    by code_simp
  have base: "applyAll ?c (Num 100) = Num 165"
    by code_simp
  show ?thesis
    using zero_duration_modifier_never_active [OF h1 h2 h3, of "[]" "Num 100"] h1
    unfolding ida base by simp
qed


subsection \<open>Stat\<close>

lemma stat_call_bounds:
  "minValue (stat_call s x) = minValue s" "maxValue (stat_call s x) = maxValue s"
  by (cases x; simp add: Stat_modify_def Stat_set_def Let_def)+

lemma stat_call_in_range:
  "minValue s \<le> maxValue s \<Longrightarrow>
   minValue s \<le> currentValue (stat_call s x) \<and> currentValue (stat_call s x) \<le> maxValue s"
  by (cases x) (simp_all add: Stat_modify_def Stat_set_def Let_def)

lemma stat_calls_bounds:
  "minValue (foldl stat_call s xs) = minValue s \<and> maxValue (foldl stat_call s xs) = maxValue s"
  by (induction xs arbitrary: s) (simp_all add: stat_call_bounds)

lemma stat_calls_in_range:
  assumes "minValue s \<le> maxValue s" and "xs \<noteq> []"
  shows "minValue s \<le> currentValue (foldl stat_call s xs)
       \<and> currentValue (foldl stat_call s xs) \<le> maxValue s"
  using assms(2)
proof (induction xs rule: rev_induct)
  case Nil
  then show ?case by simp
next
  case (snoc x xs)
  let ?t = "foldl stat_call s xs"
  have b: "minValue ?t = minValue s" "maxValue ?t = maxValue s"
    using stat_calls_bounds [of s xs] by simp_all
  then have "minValue ?t \<le> maxValue ?t"
    using assms(1) by simp
  from stat_call_in_range [OF this, of x] show ?case
    by (simp add: b)
qed

lemma setBounds_ordered: "minValue (setBounds s lo hi) \<le> maxValue (setBounds s lo hi)"
  by (simp add: setBounds_def Let_def)

text \<open>
  C3, at the failing input. The constructor of index.js takes \<open>minValue\<close> and
  \<open>maxValue\<close> as given: from \<open>{minValue: 100, maxValue: 0}\<close> the stat has
  \<open>minValue = 100 > maxValue = 0\<close>, and after \<open>modify(5)\<close>, or \<open>set(50)\<close>,
  \<open>currentValue\<close> is 100, above \<open>maxValue\<close>.
\<close>

theorem modify_with_swapped_bounds_leaves_range:
  "minValue (new_Stat env (empty_stat_config\<lparr>scfg_minValue := Some 100, scfg_maxValue := Some 0\<rparr>)) = 100
   \<and> maxValue (new_Stat env (empty_stat_config\<lparr>scfg_minValue := Some 100, scfg_maxValue := Some 0\<rparr>)) = 0
   \<and> currentValue (snd (Stat_modify
         (new_Stat env (empty_stat_config\<lparr>scfg_minValue := Some 100, scfg_maxValue := Some 0\<rparr>)) 5)) = 100
   \<and> currentValue (snd (Stat_set
         (new_Stat env (empty_stat_config\<lparr>scfg_minValue := Some 100, scfg_maxValue := Some 0\<rparr>)) 50)) = 100
   \<and> \<not> currentValue (foldl stat_call
         (new_Stat env (empty_stat_config\<lparr>scfg_minValue := Some 100, scfg_maxValue := Some 0\<rparr>))
         [Call_modify 5])
       \<le> maxValue (foldl stat_call
         (new_Stat env (empty_stat_config\<lparr>scfg_minValue := Some 100, scfg_maxValue := Some 0\<rparr>))
         [Call_modify 5])"
  by (simp add: new_Stat_def empty_stat_config_def Stat_modify_def Stat_set_def Let_def)

subsection \<open>Parsing\<close>

text \<open>
  C4. With the default configuration, \<open>{{hp:-10}}\<close> parses to exactly one command,
  which is valid, of type \<open>MODIFY\<close>, for \<open>hp\<close>, with value -10; \<open>{{hp:=50}}\<close> to exactly
  one valid \<open>SET\<close> command with value 50; and, the configuration being case-insensitive,
  \<open>{{HP:-10}}\<close> to a command for \<open>hp\<close>.
\<close>

theorem parse_examples:
  "parse default_config ''{{hp:-10}}'' =
     [\<lparr>cmd_raw = ''{{hp:-10}}'', cmd_statId = ''hp'', cmd_value = Num (- 10), cmd_type = MODIFY,
       cmd_isValid = True, cmd_error = []\<rparr>]
   \<and> parseValid default_config ''{{hp:-10}}'' = parse default_config ''{{hp:-10}}''
   \<and> parse default_config ''{{hp:=50}}'' =
     [\<lparr>cmd_raw = ''{{hp:=50}}'', cmd_statId = ''hp'', cmd_value = Num 50, cmd_type = SET,
       cmd_isValid = True, cmd_error = []\<rparr>]
   \<and> parseValid default_config ''{{hp:=50}}'' = parse default_config ''{{hp:=50}}''
   \<and> caseSensitive default_config = False
   \<and> parse default_config ''{{HP:-10}}'' =
     [\<lparr>cmd_raw = ''{{HP:-10}}'', cmd_statId = ''hp'', cmd_value = Num (- 10), cmd_type = MODIFY,
       cmd_isValid = True, cmd_error = []\<rparr>]
   \<and> map cmd_statId (parseValid (default_config\<lparr>caseSensitive := True\<rparr>) ''{{HP:-10}}'') = [''HP'']"
proof -
  have 1: "parse default_config ''{{hp:-10}}'' =
     [\<lparr>cmd_raw = ''{{hp:-10}}'', cmd_statId = ''hp'', cmd_value = Num (- 10), cmd_type = MODIFY,
       cmd_isValid = True, cmd_error = []\<rparr>]"
    by code_simp
  have 2: "parse default_config ''{{hp:=50}}'' =
     [\<lparr>cmd_raw = ''{{hp:=50}}'', cmd_statId = ''hp'', cmd_value = Num 50, cmd_type = SET,
       cmd_isValid = True, cmd_error = []\<rparr>]"
    by code_simp
  have 3: "parse default_config ''{{HP:-10}}'' =
     [\<lparr>cmd_raw = ''{{HP:-10}}'', cmd_statId = ''hp'', cmd_value = Num (- 10), cmd_type = MODIFY,
       cmd_isValid = True, cmd_error = []\<rparr>]"
    by code_simp
  have 4: "map cmd_statId (parseValid (default_config\<lparr>caseSensitive := True\<rparr>) ''{{HP:-10}}'') = [''HP'']"
    by code_simp
  have 5: "caseSensitive default_config = False"
    by (simp add: default_config_def)
  show ?thesis
    unfolding parseValid_def 1 2 3 using 4 5 by (simp add: parseValid_def)
qed

subsection \<open>Commands and their application\<close>

lemma parseCommand_valid_value:
  "cmd_isValid (parseCommand cfg raw statId valueStr) \<Longrightarrow>
   \<exists>v. cmd_value (parseCommand cfg raw statId valueStr) = Num v"
  by (auto simp: parseCommand_def Let_def split: if_splits jsnum.splits)

lemma scan_commands:
  "c \<in> set (scan cfg skip s) \<Longrightarrow> \<exists>raw statId valueStr. c = parseCommand cfg raw statId valueStr"
proof (induction cfg skip s rule: scan.induct)
  case (1 cfg skip)
  then show ?case by simp
next
  case (2 cfg skip c' r)
  then show ?case
    by (auto split: if_splits option.splits prod.splits)
qed

lemma parseValid_values:
  "c \<in> set (parseValid cfg text) \<Longrightarrow> \<exists>v. cmd_value c = Num v"
proof -
  assume "c \<in> set (parseValid cfg text)"
  then have valid: "cmd_isValid c" and "c \<in> set (parse cfg text)"
    by (simp_all add: parseValid_def)
  then have "c \<in> set (scan cfg 0 text)"
    by (simp add: parse_def split: if_splits)
  then obtain raw statId valueStr where "c = parseCommand cfg raw statId valueStr"
    using scan_commands by blast
  then show ?thesis
    using valid parseCommand_valid_value by blast
qed









subsection \<open>Character classes\<close>

lemma class_facts:
  "\<not> is_digit CHR ''-''" "\<not> is_digit CHR ''+''" "\<not> is_digit CHR ''=''" "\<not> is_digit CHR ''.''"
  "\<not> is_digit CHR ''}''" "\<not> is_digit CHR ''{''" "\<not> is_digit CHR '':''"
  "\<not> is_space CHR ''}''" "\<not> is_space CHR ''{''" "\<not> is_space CHR '':''" "\<not> is_space CHR ''-''"
  "\<not> is_space CHR ''+''" "\<not> is_space CHR ''=''" "\<not> is_space CHR ''.''"
  "\<not> is_id_part CHR '':''" "\<not> is_id_part CHR ''}''" "\<not> is_id_part CHR ''{''"
  "\<not> is_id_start CHR '':''" "\<not> is_id_start CHR ''}''" "\<not> is_id_start CHR ''{''"
  "\<not> is_op CHR ''}''" "\<not> is_op CHR ''.''"
  "is_op CHR ''-''" "is_op CHR ''+''" "is_op CHR ''=''"
  by code_simp+

lemma digit_not_space: "is_digit c \<Longrightarrow> \<not> is_space c"
  by (auto simp: is_digit_def is_space_def Let_def)

lemma digit_not_op: "is_digit c \<Longrightarrow> \<not> is_op c"
  using class_facts by (auto simp: is_op_def)

lemma digit_not_char:
  "is_digit c \<Longrightarrow> c \<noteq> CHR ''-'' \<and> c \<noteq> CHR ''.'' \<and> c \<noteq> CHR ''}'' \<and> c \<noteq> CHR ''{'' \<and> c \<noteq> CHR '':''
     \<and> c \<noteq> CHR ''+'' \<and> c \<noteq> CHR ''=''"
  using class_facts by auto

lemma space_not_char:
  "is_space c \<Longrightarrow> c \<noteq> CHR ''-'' \<and> c \<noteq> CHR ''.'' \<and> c \<noteq> CHR ''}'' \<and> c \<noteq> CHR ''{'' \<and> c \<noteq> CHR '':''
     \<and> c \<noteq> CHR ''+'' \<and> c \<noteq> CHR ''=''"
  using class_facts by auto

lemma space_not_class: "is_space c \<Longrightarrow> \<not> is_digit c \<and> \<not> is_op c"
  using digit_not_space space_not_char by (auto simp: is_op_def)

lemma id_start_not_space: "is_id_start c \<Longrightarrow> \<not> is_space c"
  by (auto simp: is_id_start_def is_space_def Let_def)

lemma id_part_not_space: "is_id_part c \<Longrightarrow> \<not> is_space c"
  using class_facts by (auto simp: is_id_part_def id_start_not_space digit_not_space)

lemma id_part_not_char: "is_id_part c \<Longrightarrow> c \<noteq> CHR '':'' \<and> c \<noteq> CHR ''}'' \<and> c \<noteq> CHR ''{''"
  using class_facts by auto

lemma id_start_part: "is_id_start c \<Longrightarrow> is_id_part c"
  by (simp add: is_id_part_def)

lemma op_not_space: "is_op c \<Longrightarrow> \<not> is_space c"
  using class_facts(11,12,13) by (auto simp: is_op_def)

subsection \<open>The pieces of a pattern on a known text\<close>

lemma re_lit_here: "re_lit t k (t @ s) = k s"
  by (simp add: re_lit_def)

lemma re_star_stop: "s = [] \<or> \<not> P (hd s) \<Longrightarrow> re_star P k s = k s"
  by (cases s) auto

lemma re_star_all:
  "list_all P xs \<Longrightarrow> re_star P k ys = Some v \<Longrightarrow> re_star P k (xs @ ys) = Some v"
  by (induction xs) auto

lemma re_star_run:
  "list_all P xs \<Longrightarrow> ys = [] \<or> \<not> P (hd ys) \<Longrightarrow> k ys = Some v \<Longrightarrow> re_star P k (xs @ ys) = Some v"
  using re_star_all [of P xs k ys v] re_star_stop [of ys P k] by simp

lemma re_one_here: "P c \<Longrightarrow> re_one P k (c # s) = k s"
  by (simp add: re_one_def)

lemma re_one_fail: "s = [] \<or> \<not> P (hd s) \<Longrightarrow> re_one P k s = None"
  by (cases s) (auto simp: re_one_def)

lemma re_plus_all:
  "xs \<noteq> [] \<Longrightarrow> list_all P xs \<Longrightarrow> re_star P k ys = Some v \<Longrightarrow> re_plus P k (xs @ ys) = Some v"
  by (cases xs) (auto simp: re_plus_def re_one_def re_star_all)

lemma re_plus_run:
  "xs \<noteq> [] \<Longrightarrow> list_all P xs \<Longrightarrow> ys = [] \<or> \<not> P (hd ys) \<Longrightarrow> k ys = Some v
     \<Longrightarrow> re_plus P k (xs @ ys) = Some v"
  using re_plus_all [of xs P k ys v] re_star_stop [of ys P k] by simp

lemma re_opt_taken: "piece k s = Some v \<Longrightarrow> re_opt piece k s = Some v"
  by (simp add: re_opt_def)

lemma re_opt_skipped: "piece k s = None \<Longrightarrow> re_opt piece k s = k s"
  by (simp add: re_opt_def)

lemma consumed_append: "consumed (xs @ ys) ys = xs"
  by (simp add: consumed_def)

declare re_star.simps [simp del]

subsection \<open>The module's pattern on a canonical token\<close>

text \<open>
  What follows the number of a token: white space and the close tag. It begins with a
  character that is neither a digit nor the decimal point.
\<close>

lemma number_text_digits:
  assumes "wf_token t"
  shows "number_text t \<noteq> []" and "is_digit (hd (number_text t))"
  using assms by (cases "tok_digits t"; simp add: wf_token_def number_text_def)+

lemma after_number:
  assumes "list_all is_space ws"
  shows "ws @ ''}}'' @ rest \<noteq> []" and "\<not> is_digit (hd (ws @ ''}}'' @ rest))"
    and "hd (ws @ ''}}'' @ rest) \<noteq> CHR ''.''"
  using assms space_not_class space_not_char class_facts
  by (cases ws; simp; blast)+

lemma fraction_part:
  assumes "list_all is_digit fs" and "k tail = Some v"
    and "tail \<noteq> []" and "\<not> is_digit (hd tail)" and "hd tail \<noteq> CHR ''.''"
  shows "re_opt (\<lambda>k'. re_one (\<lambda>c. c = CHR ''.'') (re_plus is_digit k')) k
           ((if fs = [] then [] else ''.'' @ fs) @ tail) = Some v"
proof (cases "fs = []")
  case True
  have "re_one (\<lambda>c. c = CHR ''.'') (re_plus is_digit k) tail = None"
    using assms(3,5) by (intro re_one_fail) simp
  then show ?thesis
    using True assms(2) by (simp add: re_opt_skipped)
next
  case False
  have "re_plus is_digit k (fs @ tail) = Some v"
    using False assms(1) assms(4) assms(2) by (intro re_plus_run) simp_all
  then have "re_one (\<lambda>c. c = CHR ''.'') (re_plus is_digit k) (''.'' @ fs @ tail) = Some v"
    by (simp add: re_one_def)
  then show ?thesis
    using False by (simp add: re_opt_taken)
qed

lemma number_part:
  assumes "wf_token t" and "k tail = Some v"
    and "tail \<noteq> []" and "\<not> is_digit (hd tail)" and "hd tail \<noteq> CHR ''.''"
  shows "re_plus is_digit (re_opt (\<lambda>k'. re_one (\<lambda>c. c = CHR ''.'') (re_plus is_digit k')) k)
           (number_text t @ tail) = Some v"
proof -
  let ?frac = "(if tok_fraction t = [] then [] else ''.'' @ tok_fraction t) @ tail"
  let ?k = "re_opt (\<lambda>k'. re_one (\<lambda>c. c = CHR ''.'') (re_plus is_digit k')) k"
  have wf: "tok_digits t \<noteq> []" "list_all is_digit (tok_digits t)" "list_all is_digit (tok_fraction t)"
    using assms(1) by (simp_all add: wf_token_def)
  have k: "?k ?frac = Some v"
    using fraction_part [where k = k and tail = tail and v = v, OF wf(3) assms(2-5)] .
  have "?frac \<noteq> [] \<and> \<not> is_digit (hd ?frac)"
    using class_facts assms(3,4) by simp
  then have "re_plus is_digit ?k (tok_digits t @ ?frac) = Some v"
    using k wf(1,2) by (intro re_plus_run) simp_all
  then show ?thesis
    by (simp add: number_text_def)
qed

lemma value_group_token:
  assumes "wf_token t" and "k tail = Some v"
    and "tail \<noteq> []" and "\<not> is_digit (hd tail)" and "hd tail \<noteq> CHR ''.''"
  shows "value_group k (value_text t @ tail) = Some v"
proof -
  let ?num = "number_text t @ tail"
  let ?digits = "re_plus is_digit (re_opt (\<lambda>k'. re_one (\<lambda>c. c = CHR ''.'') (re_plus is_digit k')) k)"
  let ?signed = "re_opt (re_one (\<lambda>c. c = CHR ''-'')) ?digits"
  have ws: "list_all is_space (tok_ws_set t)"
    using assms(1) by (simp add: wf_token_def)
  have num: "?digits ?num = Some v"
    using number_part [where k = k and tail = tail and v = v, OF assms] .
  have hd: "?num \<noteq> []" "is_digit (hd ?num)"
    using number_text_digits [OF assms(1)] by simp_all
  have "re_one (\<lambda>c. c = CHR ''-'') ?digits ?num = None"
    using hd digit_not_char by (intro re_one_fail) auto
  then have unsigned: "?signed ?num = Some v"
    using num by (simp add: re_opt_skipped)
  have "re_one (\<lambda>c. c = CHR ''-'') ?digits (''-'' @ ?num) = Some v"
    using num by (simp add: re_one_def)
  then have signed: "?signed (''-'' @ ?num) = Some v"
    by (simp add: re_opt_taken)
  have sp: "re_star is_space ?signed ?num = Some v"
    using hd digit_not_space unsigned by (simp add: re_star_stop)
  have sp_ws: "re_star is_space ?signed (tok_ws_set t @ ?num) = Some v"
    using ws hd digit_not_space unsigned by (intro re_star_run) simp_all
  have sp_ws_minus: "re_star is_space ?signed (tok_ws_set t @ ''-'' @ ?num) = Some v"
    using ws class_facts signed by (intro re_star_run) simp_all
  have noop: "re_one is_op (re_star is_space ?signed) ?num = None"
    using hd digit_not_op by (intro re_one_fail) auto
  show ?thesis
  proof (cases "tok_op t")
    case Op_none
    then show ?thesis
      using noop sp by (simp add: value_group_def value_text_def re_opt_skipped)
  next
    case Op_plus
    have "re_one is_op (re_star is_space ?signed) (''+'' @ ?num) = Some v"
      using sp class_facts by (simp add: re_one_def)
    then show ?thesis
      using Op_plus by (simp add: value_group_def value_text_def re_opt_taken)
  next
    case Op_minus
    have "re_one is_op (re_star is_space ?signed) (''-'' @ ?num) = Some v"
      using sp class_facts by (simp add: re_one_def)
    then show ?thesis
      using Op_minus by (simp add: value_group_def value_text_def re_opt_taken)
  next
    case Op_set
    have "re_one is_op (re_star is_space ?signed) (''='' @ tok_ws_set t @ ?num) = Some v"
      using sp_ws class_facts by (simp add: re_one_def)
    then show ?thesis
      using Op_set by (simp add: value_group_def value_text_def re_opt_taken)
  next
    case Op_set_minus
    have "re_one is_op (re_star is_space ?signed) (''='' @ tok_ws_set t @ ''-'' @ ?num) = Some v"
      using sp_ws_minus class_facts by (simp add: re_one_def)
    then show ?thesis
      using Op_set_minus by (simp add: value_group_def value_text_def re_opt_taken)
  qed
qed

lemma value_text_head:
  assumes "wf_token t"
  shows "value_text t \<noteq> []" and "\<not> is_space (hd (value_text t))"
    and "\<not> is_space (last (value_text t))"
proof -
  have n: "number_text t \<noteq> []" "\<not> is_space (hd (number_text t))"
    using number_text_digits [OF assms] digit_not_space by auto
  have "is_digit (last (number_text t))"
    using assms by (auto simp: wf_token_def number_text_def list_all_iff)
  then have l: "\<not> is_space (last (number_text t))"
    by (rule digit_not_space)
  show "value_text t \<noteq> []"
    using n(1) by (cases "tok_op t") (simp_all add: value_text_def)
  show "\<not> is_space (hd (value_text t))"
    using n class_facts by (cases "tok_op t") (simp_all add: value_text_def)
  show "\<not> is_space (last (value_text t))"
    using n(1) l by (cases "tok_op t") (simp_all add: value_text_def)
qed

lemma command_pattern_token:
  assumes "wf_token t"
  shows "command_pattern default_config (token_text t @ rest) = Some (tok_id t, value_text t, rest)"
proof -
  obtain c r where ident: "tok_id t = c # r" and c: "is_id_start c" and r: "list_all is_id_part r"
    using assms by (cases "tok_id t") (auto simp: wf_token_def)
  have ws: "list_all is_space (tok_ws_open t)" "list_all is_space (tok_ws_id t)"
    "list_all is_space (tok_ws_sep t)" "list_all is_space (tok_ws_close t)"
    using assms by (simp_all add: wf_token_def)
  let ?val = "value_text t"
  let ?s5 = "''}}'' @ rest"
  let ?s4 = "tok_ws_close t @ ?s5"
  let ?s3 = "?val @ ?s4"
  let ?s2 = "tok_ws_id t @ '':'' @ tok_ws_sep t @ ?s3"
  let ?s1 = "c # r @ ?s2"
  let ?k5 = "\<lambda>s3' s4 s5. Some (consumed ?s1 ?s2, consumed s3' s4, s5)"
  let ?k4 = "\<lambda>s3' s4. re_star is_space (re_lit ''}}'' (?k5 s3' s4)) s4"
  let ?k3 = "\<lambda>s3'. value_group (?k4 s3') s3'"
  have k4: "?k4 ?s3 ?s4 = Some (consumed ?s1 ?s2, ?val, rest)"
  proof -
    have "consumed ?s3 ?s4 = ?val"
      using consumed_append [of ?val ?s4] by simp
    moreover have "re_lit ''}}'' (?k5 ?s3 ?s4) ?s5 = ?k5 ?s3 ?s4 rest"
      by (rule re_lit_here)
    ultimately have lit: "re_lit ''}}'' (?k5 ?s3 ?s4) ?s5 = Some (consumed ?s1 ?s2, ?val, rest)"
      by simp
    show ?thesis
      by (rule re_star_run [where P = is_space and xs = "tok_ws_close t" and ys = ?s5
            and k = "re_lit ''}}'' (?k5 ?s3 ?s4)", OF ws(4) _ lit])
        (simp add: class_facts)
  qed
  have k3: "?k3 ?s3 = Some (consumed ?s1 ?s2, ?val, rest)"
    using value_group_token [where k = "?k4 ?s3" and tail = ?s4, OF assms k4]
      after_number(1-3) [OF ws(4), of rest] by simp
  have val_hd: "?s3 \<noteq> [] \<and> \<not> is_space (hd ?s3)"
    using value_text_head [OF assms] by simp
  have sp3: "re_star is_space ?k3 (tok_ws_sep t @ ?s3) = Some (consumed ?s1 ?s2, ?val, rest)"
    by (rule re_star_run [where P = is_space and xs = "tok_ws_sep t" and ys = ?s3 and k = ?k3,
          OF ws(3) _ k3])
      (use val_hd in simp)
  have sep: "re_lit '':'' (re_star is_space ?k3) ('':'' @ tok_ws_sep t @ ?s3)
      = Some (consumed ?s1 ?s2, ?val, rest)"
    using sp3 re_lit_here [of "'':''" "re_star is_space ?k3" "tok_ws_sep t @ ?s3"] by simp
  have sp2: "re_star is_space (re_lit '':'' (re_star is_space ?k3)) ?s2
      = Some (consumed ?s1 ?s2, ?val, rest)"
    by (rule re_star_run [where P = is_space and xs = "tok_ws_id t"
          and ys = "'':'' @ tok_ws_sep t @ ?s3" and k = "re_lit '':'' (re_star is_space ?k3)",
          OF ws(2) _ sep])
      (simp add: class_facts)
  let ?k2 = "\<lambda>s2. re_star is_space (re_lit '':'' (re_star is_space
      (\<lambda>s3'. value_group (\<lambda>s4. re_star is_space (re_lit ''}}''
         (\<lambda>s5. Some (consumed ?s1 s2, consumed s3' s4, s5))) s4) s3'))) s2"
  have k2: "?k2 ?s2 = Some (consumed ?s1 ?s2, ?val, rest)"
    using sp2 by simp
  have s2_hd: "?s2 \<noteq> [] \<and> \<not> is_id_part (hd ?s2)"
    using ws(2) id_part_not_space class_facts by (cases "tok_ws_id t") auto
  have "re_star is_id_part ?k2 (r @ ?s2) = Some (consumed ?s1 ?s2, ?val, rest)"
    by (rule re_star_run [where P = is_id_part and xs = r and ys = ?s2 and k = ?k2, OF r _ k2]) (use s2_hd in simp)
  then have one: "re_one is_id_start (re_star is_id_part ?k2) ?s1 = Some (consumed ?s1 ?s2, ?val, rest)"
    using c by (simp add: re_one_def)
  have cons: "consumed ?s1 ?s2 = c # r"
    using consumed_append [of "c # r" ?s2] by simp
  let ?k1 = "\<lambda>s1. re_one is_id_start (re_star is_id_part (\<lambda>s2.
      re_star is_space (re_lit '':'' (re_star is_space
      (\<lambda>s3'. value_group (\<lambda>s4. re_star is_space (re_lit ''}}''
         (\<lambda>s5. Some (consumed s1 s2, consumed s3' s4, s5))) s4) s3'))) s2)) s1"
  have k1: "?k1 ?s1 = Some (c # r, ?val, rest)"
    using one cons by simp
  have "re_star is_space ?k1 (tok_ws_open t @ ?s1) = Some (c # r, ?val, rest)"
    by (rule re_star_run [where P = is_space and xs = "tok_ws_open t" and ys = ?s1 and k = ?k1,
          OF ws(1) _ k1])
      (use c id_start_not_space in simp)
  then have "re_lit ''{{'' (re_star is_space ?k1) (''{{'' @ tok_ws_open t @ ?s1) = Some (c # r, ?val, rest)"
    by (simp add: re_lit_def)
  moreover have "token_text t @ rest = ''{{'' @ tok_ws_open t @ ?s1"
    by (simp add: token_text_def ident)
  ultimately show ?thesis
    by (simp add: command_pattern_def default_config_def ident)
qed

subsection \<open>The number of a canonical token\<close>

lemma dropWhile_no_space: "s = [] \<or> \<not> is_space (hd s) \<Longrightarrow> dropWhile is_space s = s"
  by (cases s) simp_all

lemma dropWhile_spaces: "list_all is_space ws \<Longrightarrow> dropWhile is_space (ws @ s) = dropWhile is_space s"
  by (induction ws) simp_all

lemma trim_core:
  assumes "list_all is_space ws" and "list_all is_space ws'"
    and "s \<noteq> []" and "\<not> is_space (hd s)" and "\<not> is_space (last s)"
  shows "trim (ws @ s @ ws') = s"
proof -
  have 1: "dropWhile is_space (ws @ s @ ws') = s @ ws'"
    using assms(1,3,4) by (simp add: dropWhile_spaces dropWhile_no_space)
  have "list_all is_space (rev ws')"
    using assms(2) by (simp add: list_all_iff)
  then have "dropWhile is_space (rev ws' @ rev s) = dropWhile is_space (rev s)"
    by (rule dropWhile_spaces)
  also have "\<dots> = rev s"
    using assms(3,5) by (intro dropWhile_no_space) (simp add: hd_rev)
  finally show ?thesis
    by (simp add: trim_def 1)
qed

lemma trim_plain: "s \<noteq> [] \<Longrightarrow> \<not> is_space (hd s) \<Longrightarrow> \<not> is_space (last s) \<Longrightarrow> trim s = s"
  using trim_core [of "[]" "[]" s] by simp

lemma wf_id_chars: "wf_id s \<Longrightarrow> s \<noteq> [] \<and> list_all is_id_part s"
  by (cases s) (simp_all add: id_start_part)

lemma wf_id_ends:
  assumes "wf_id s"
  shows "\<not> is_space (hd s)" and "\<not> is_space (last s)"
proof -
  have "s \<noteq> []" and all: "\<forall>c\<in>set s. is_id_part c"
    using wf_id_chars [OF assms] by (simp_all add: list_all_iff)
  then have "hd s \<in> set s" "last s \<in> set s"
    by simp_all
  then show "\<not> is_space (hd s)" and "\<not> is_space (last s)"
    using all id_part_not_space by blast+
qed

lemma number_text_chars:
  "wf_token t \<Longrightarrow> list_all (\<lambda>c. is_digit c \<or> c = CHR ''.'') (number_text t)"
  by (auto simp: wf_token_def number_text_def list_all_iff)

lemma number_text_no_space: "wf_token t \<Longrightarrow> filter (\<lambda>c. \<not> is_space c) (number_text t) = number_text t"
proof -
  assume "wf_token t"
  then have "\<forall>c\<in>set (number_text t). \<not> is_space c"
    using number_text_chars [of t] class_facts(14) digit_not_space by (auto simp: list_all_iff)
  then show ?thesis
    by (simp add: filter_id_conv)
qed

lemma filter_spaces: "list_all is_space ws \<Longrightarrow> filter (\<lambda>c. \<not> is_space c) ws = []"
  by (induction ws) simp_all

text \<open>The value of a token without its white space: the operator and the number.\<close>

lemma filter_value_text:
  assumes "wf_token t"
  shows "filter (\<lambda>c. \<not> is_space c) (value_text t) = op_text (tok_op t) @ number_text t"
proof -
  have ws: "filter (\<lambda>c. \<not> is_space c) (tok_ws_set t) = []"
    using assms by (intro filter_spaces) (simp add: wf_token_def)
  show ?thesis
    using number_text_no_space [OF assms] ws class_facts
    by (cases "tok_op t") (simp_all add: value_text_def)
qed

lemma unsigned_number:
  assumes "wf_token t"
  shows "unsigned_decimal_prefix (number_text t) =
           Some (of_int (digits_value (tok_digits t))
                 + of_int (digits_value (tok_fraction t)) / 10 ^ length (tok_fraction t), [])"
proof -
  have wf: "tok_digits t \<noteq> []" "list_all is_digit (tok_digits t)" "list_all is_digit (tok_fraction t)"
    using assms by (simp_all add: wf_token_def)
  have all: "\<And>x. x \<in> set (tok_digits t) \<Longrightarrow> is_digit x" "\<And>x. x \<in> set (tok_fraction t) \<Longrightarrow> is_digit x"
    using wf by (simp_all add: list_all_iff)
  have exp0: "read_exponent [] = (0, [])"
    by (simp add: read_exponent_def)
  have f: "takeWhile is_digit (tok_fraction t) = tok_fraction t"
    "dropWhile is_digit (tok_fraction t) = []"
    using all by simp_all
  show ?thesis
  proof (cases "tok_fraction t = []")
    case True
    have nt: "number_text t = tok_digits t"
      using True by (simp add: number_text_def)
    have tw: "takeWhile is_digit (tok_digits t) = tok_digits t"
      and dw: "dropWhile is_digit (tok_digits t) = []"
      using all by simp_all
    show ?thesis
      unfolding nt unsigned_decimal_prefix_def tw dw
      by (simp add: Let_def exp0 scale10_def wf(1) True digits_value_def)
  next
    case False
    have nt: "number_text t = tok_digits t @ CHR ''.'' # tok_fraction t"
      using False by (simp add: number_text_def)
    have tw: "takeWhile is_digit (tok_digits t @ CHR ''.'' # tok_fraction t) = tok_digits t"
      using all(1) class_facts(4) by (simp add: takeWhile_append2)
    have dw: "dropWhile is_digit (tok_digits t @ CHR ''.'' # tok_fraction t) = CHR ''.'' # tok_fraction t"
      using all(1) class_facts(4) by (simp add: dropWhile_append2)
    show ?thesis
      unfolding nt unsigned_decimal_prefix_def tw dw
      by (simp add: Let_def exp0 scale10_def wf(1) False f)
  qed
qed

lemma signed_number:
  assumes "wf_token t"
  defines "v \<equiv> of_int (digits_value (tok_digits t))
                 + of_int (digits_value (tok_fraction t)) / 10 ^ length (tok_fraction t)"
  shows "decimal_prefix (number_text t) = Some (to_double v, [])"
    and "decimal_prefix (CHR ''+'' # number_text t) = Some (to_double v, [])"
    and "decimal_prefix (CHR ''-'' # number_text t) = Some (to_double (- v), [])"
proof -
  obtain d r where nt: "number_text t = d # r" and d: "is_digit d"
    using number_text_digits [OF assms(1)] by (cases "number_text t") auto
  have "\<not> is_digit CHR ''I''"
    by code_simp
  then have d': "d \<noteq> CHR ''-''" "d \<noteq> CHR ''+''" "d \<noteq> CHR ''I''"
    using d digit_not_char by auto
  have u: "unsigned_decimal_prefix (d # r) = Some (v, [])"
    using unsigned_number [OF assms(1)] by (simp add: nt v_def)
  show "decimal_prefix (number_text t) = Some (to_double v, [])"
    unfolding nt by (simp add: decimal_prefix_def d' u)
  show "decimal_prefix (CHR ''+'' # number_text t) = Some (to_double v, [])"
    unfolding nt by (simp add: decimal_prefix_def d' u)
  show "decimal_prefix (CHR ''-'' # number_text t) = Some (to_double (- v), [])"
    unfolding nt by (simp add: decimal_prefix_def d' u)
qed

text \<open>
  The text that is converted to a number: the value without white space, and without
  the \<open>=\<close> of a \<open>SET\<close> command.
\<close>

lemma numeric_part:
  assumes "wf_token t"
  defines "ns \<equiv> (if op_type (tok_op t) = SET then drop 1 (op_text (tok_op t) @ number_text t)
                 else op_text (tok_op t) @ number_text t)"
  shows "decimal_prefix ns = Some (to_double (token_value t), [])"
    and "ns \<noteq> []" and "\<not> is_space (hd ns)" and "\<not> is_space (last ns)"
proof -
  have ne: "number_text t \<noteq> []" and h: "\<not> is_space (hd (number_text t))"
    using number_text_digits [OF assms(1)] digit_not_space by auto
  have "is_digit (last (number_text t))"
    using assms(1) by (auto simp: wf_token_def number_text_def list_all_iff)
  then have l: "\<not> is_space (last (number_text t))"
    by (rule digit_not_space)
  show "decimal_prefix ns = Some (to_double (token_value t), [])"
    using signed_number [OF assms(1)]
    by (cases "tok_op t") (simp_all add: ns_def token_value_def Let_def)
  show "ns \<noteq> []"
    using ne by (cases "tok_op t") (simp_all add: ns_def)
  show "\<not> is_space (hd ns)"
    using ne h class_facts by (cases "tok_op t") (simp_all add: ns_def)
  show "\<not> is_space (last ns)"
    using ne l by (cases "tok_op t") (simp_all add: ns_def)
qed

lemma to_double_cases: "(\<exists>y. to_double x = Num y) \<or> to_double x = PosInf \<or> to_double x = NegInf"
  by (simp add: to_double_def Let_def)

lemma Number_numeric_part:
  assumes "decimal_prefix ns = Some (x, [])" and "ns \<noteq> []"
    and "\<not> is_space (hd ns)" and "\<not> is_space (last ns)"
  shows "Number_of_string ns = x" and "list_all is_space ws \<Longrightarrow> parseFloat (ws @ ns) = x"
proof -
  have "trim ns = ns"
    using assms(2-4) by (rule trim_plain)
  then show "Number_of_string ns = x"
    using assms(1,2) by (simp add: Number_of_string_def Let_def)
  assume "list_all is_space ws"
  then have "dropWhile is_space (ws @ ns) = ns"
    using assms(2,3) by (simp add: dropWhile_spaces dropWhile_no_space)
  then show "parseFloat (ws @ ns) = x"
    using assms(1) by (simp add: parseFloat_def)
qed

subsection \<open>The module's parser on canonical tokens\<close>

lemma set_value_iff:
  assumes "wf_token t"
  shows "take 1 (op_text (tok_op t) @ number_text t) = ''='' \<longleftrightarrow> op_type (tok_op t) = SET"
    and "take 1 (value_text t) = ''='' \<longleftrightarrow> op_type (tok_op t) = SET"
proof -
  obtain d r where nt: "number_text t = d # r" and d: "is_digit d"
    using number_text_digits [OF assms] by (cases "number_text t") auto
  have "d \<noteq> CHR ''=''"
    using d digit_not_char by auto
  then show "take 1 (op_text (tok_op t) @ number_text t) = ''='' \<longleftrightarrow> op_type (tok_op t) = SET"
    and "take 1 (value_text t) = ''='' \<longleftrightarrow> op_type (tok_op t) = SET"
    by (cases "tok_op t"; simp add: nt value_text_def)+
qed

lemma parseCommand_value:
  assumes "wf_token t"
  shows "parseCommand default_config raw (tok_id t) (value_text t) =
           (case to_double (token_value t) of
              Num v \<Rightarrow> \<lparr> cmd_raw = raw, cmd_statId = toLowerCase (tok_id t), cmd_value = Num v,
                          cmd_type = op_type (tok_op t), cmd_isValid = True, cmd_error = [] \<rparr>
            | _ \<Rightarrow> \<lparr> cmd_raw = raw, cmd_statId = toLowerCase (tok_id t), cmd_value = NaN,
                      cmd_type = INVALID, cmd_isValid = False,
                      cmd_error = ''Invalid number: '' @ value_text t \<rparr>)"
proof -
  let ?val = "op_text (tok_op t) @ number_text t"
  let ?ns = "if op_type (tok_op t) = SET then drop 1 ?val else ?val"
  have wfid: "wf_id (tok_id t)"
    using assms by (simp add: wf_token_def)
  have idc: "tok_id t \<noteq> []"
    using wf_id_chars [OF wfid] by simp
  have trim_id: "trim (tok_id t) = tok_id t"
    using idc wf_id_ends [OF wfid] by (rule trim_plain)
  have nonempty: "isNonEmptyString (Some (tok_id t))"
    using idc by (simp add: trim_id)
  have filt: "filter (\<lambda>c. \<not> is_space c) (value_text t) = ?val"
    by (rule filter_value_text [OF assms])
  have ne: "?val \<noteq> []"
    using number_text_digits [OF assms] by simp
  have nsne: "?ns \<noteq> []"
    using numeric_part(2) [OF assms] .
  have "Number_of_string ?ns = to_double (token_value t)"
    using Number_numeric_part(1) [OF numeric_part [OF assms]] .
  then have num: "toNumber_string ?ns NaN =
      (case to_double (token_value t) of Num v \<Rightarrow> Num v | _ \<Rightarrow> NaN)"
    using nsne by (simp add: toNumber_string_def)
  show ?thesis
  proof (cases "op_type (tok_op t) = SET")
    case True
    then have "take 1 ?val = ''=''"
      using set_value_iff(1) [OF assms] by simp
    moreover have "toNumber_string (drop 1 ?val) NaN =
        (case to_double (token_value t) of Num v \<Rightarrow> Num v | _ \<Rightarrow> NaN)"
      using num True by simp
    ultimately show ?thesis
      unfolding parseCommand_def Let_def filt
      using nonempty ne True to_double_cases [of "token_value t"]
      by (auto simp: trim_id default_config_def)
  next
    case False
    then have "take 1 ?val \<noteq> ''=''"
      using set_value_iff(1) [OF assms] by simp
    moreover have "toNumber_string ?val NaN =
        (case to_double (token_value t) of Num v \<Rightarrow> Num v | _ \<Rightarrow> NaN)"
      using num False by simp
    moreover have "op_type (tok_op t) = MODIFY"
      using False by (cases "tok_op t") simp_all
    ultimately show ?thesis
      unfolding parseCommand_def Let_def filt
      using nonempty ne to_double_cases [of "token_value t"]
      by (auto simp: trim_id default_config_def)
  qed
qed

lemma parseCommand_token:
  assumes "wf_token t" and "in_double_range t"
  shows "parseCommand default_config raw (tok_id t) (value_text t) =
           \<lparr> cmd_raw = raw, cmd_statId = toLowerCase (tok_id t),
             cmd_value = to_double (token_value t),
             cmd_type = op_type (tok_op t), cmd_isValid = True, cmd_error = [] \<rparr>"
  using assms(2) unfolding parseCommand_value [OF assms(1)] in_double_range_def
  by (cases "to_double (token_value t)") simp_all

lemma parseCommand_out_of_range:
  assumes "wf_token t" and "\<not> in_double_range t"
  shows "\<not> cmd_isValid (parseCommand default_config raw (tok_id t) (value_text t))"
  using assms(2) unfolding parseCommand_value [OF assms(1)] in_double_range_def
  by (cases "to_double (token_value t)") simp_all

lemma command_pattern_no_tag:
  "take 2 s \<noteq> ''{{'' \<Longrightarrow> command_pattern default_config s = None"
  by (simp add: command_pattern_def default_config_def re_lit_def numeral_2_eq_2)

lemma no_open_tag_step:
  assumes "no_open_tag ((c # pre) @ ''{'')"
  shows "take 2 (c # pre @ CHR ''{'' # s) \<noteq> ''{{''" and "no_open_tag (pre @ ''{'')"
  using assms by (cases pre; simp)+

lemma no_open_tag_tail: "no_open_tag (c # s) \<Longrightarrow> take 2 (c # s) \<noteq> ''{{'' \<and> no_open_tag s"
  by (cases s) auto

lemma no_brace_no_tag: "CHR ''{'' \<notin> set s \<Longrightarrow> no_open_tag s"
  by (induction s rule: no_open_tag.induct) auto

lemma scan_gap:
  "no_open_tag (pre @ ''{'') \<Longrightarrow>
   scan default_config 0 (pre @ CHR ''{'' # s) = scan default_config 0 (CHR ''{'' # s)"
proof (induction pre)
  case Nil
  show ?case by simp
next
  case (Cons c pre)
  have "command_pattern default_config (c # pre @ CHR ''{'' # s) = None"
    using no_open_tag_step(1) [OF Cons.prems] by (rule command_pattern_no_tag)
  then show ?case
    using Cons.IH [OF no_open_tag_step(2) [OF Cons.prems]] by simp
qed

lemma scan_no_tag: "no_open_tag s \<Longrightarrow> scan default_config 0 s = []"
proof (induction s)
  case Nil
  show ?case by simp
next
  case (Cons c s)
  have "command_pattern default_config (c # s) = None"
    using no_open_tag_tail [OF Cons.prems] by (intro command_pattern_no_tag) simp
  then show ?case
    using Cons.IH no_open_tag_tail [OF Cons.prems] by simp
qed

lemma scan_skip: "scan cfg (length xs) (xs @ s) = scan cfg 0 s"
  by (induction xs) simp_all

lemma scan_token:
  assumes "wf_token t"
  shows "scan default_config 0 (token_text t @ s) =
           parseCommand default_config (token_text t) (tok_id t) (value_text t)
             # scan default_config 0 s"
proof -
  obtain r where tt: "token_text t = CHR ''{'' # r"
    by (simp add: token_text_def)
  have pat: "command_pattern default_config (CHR ''{'' # r @ s) =
      Some (tok_id t, value_text t, s)"
    using command_pattern_token [OF assms, of s] by (simp add: tt)
  have raw: "consumed (CHR ''{'' # r @ s) s = token_text t"
    using consumed_append [of "token_text t" s] by (simp add: tt)
  have step: "scan default_config 0 (CHR ''{'' # r @ s) =
      parseCommand default_config (token_text t) (tok_id t) (value_text t)
        # scan default_config (length r) (r @ s)"
    by (simp add: pat raw)
  have eq: "token_text t @ s = CHR ''{'' # r @ s"
    by (simp add: tt)
  show ?thesis
    unfolding eq step scan_skip by (rule refl)
qed

lemma parse_is_scan: "parse default_config text = scan default_config 0 text"
proof (cases "isNonEmptyString (Some text)")
  case True
  then show ?thesis by (simp add: parse_def)
next
  case False
  then have "dropWhile is_space (rev (dropWhile is_space text)) = []"
    by (simp add: trim_def)
  then have "\<forall>c\<in>set (dropWhile is_space text). is_space c"
    by (simp add: dropWhile_eq_Nil_conv)
  then have "dropWhile is_space text = []"
    by (metis hd_dropWhile hd_in_set)
  then have "\<forall>c\<in>set text. is_space c"
    by (simp add: dropWhile_eq_Nil_conv)
  then have "CHR ''{'' \<notin> set text"
    using class_facts(9) by blast
  then have "scan default_config 0 text = []"
    by (intro scan_no_tag no_brace_no_tag)
  then show ?thesis
    using False by (simp add: parse_def)
qed

lemma token_text_open: "\<exists>r. token_text t @ s = CHR ''{'' # r"
  by (simp add: token_text_def)

lemma scan_tokens:
  "wf_segments segs \<Longrightarrow> no_open_tag post \<Longrightarrow>
   scan default_config 0 (tokens_text segs post) =
     map (\<lambda>(pre, t). \<lparr> cmd_raw = token_text t, cmd_statId = toLowerCase (tok_id t),
                         cmd_value = to_double (token_value t), cmd_type = op_type (tok_op t),
                         cmd_isValid = True, cmd_error = [] \<rparr>) segs"
proof (induction segs)
  case Nil
  then show ?case
    by (simp add: scan_no_tag)
next
  case (Cons seg segs)
  obtain pre t where seg: "seg = (pre, t)" by (cases seg)
  have pre: "no_open_tag (pre @ ''{'')" and t: "wf_token t" and range: "in_double_range t"
    and rest: "wf_segments segs"
    using Cons.prems(1) by (simp_all add: seg)
  obtain r where r: "token_text t @ tokens_text segs post = CHR ''{'' # r"
    using token_text_open by blast
  have "scan default_config 0 (pre @ token_text t @ tokens_text segs post) =
      scan default_config 0 (token_text t @ tokens_text segs post)"
    unfolding r by (rule scan_gap [OF pre])
  then show ?case
    using Cons.IH [OF rest Cons.prems(2)]
    by (simp add: seg scan_token [OF t] parseCommand_token [OF t range])
qed

subsection \<open>The parser of index.js on canonical tokens\<close>

lemma standalone_pattern_default:
  "standalone_pattern default_config s =
     re_lit ''{{'' (\<lambda>s1. re_plus (\<lambda>c. c \<noteq> CHR ''}'') (\<lambda>s2.
        re_lit ''}}'' (\<lambda>s3. Some (consumed s1 s2, s3)) s2) s1) s"
proof -
  have P: "(take 1 (closeTag default_config) \<noteq> [c]) = (c \<noteq> CHR ''}'')" for c
    by (auto simp: default_config_def)
  show ?thesis
    unfolding standalone_pattern_def P by (simp add: default_config_def)
qed

lemma spaces_not_char:
  assumes "list_all is_space ws"
  shows "list_all (\<lambda>c. c \<noteq> CHR ''}'') ws" and "CHR '':'' \<notin> set ws"
  using assms space_not_char by (auto simp: list_all_iff)

lemma value_text_chars:
  assumes "wf_token t"
  shows "list_all (\<lambda>c. c \<noteq> CHR ''}'') (value_text t)"
proof -
  have "c \<noteq> CHR ''}''" if "is_digit c \<or> c = CHR ''.''" for c
    using that digit_not_char by auto
  then have n: "list_all (\<lambda>c. c \<noteq> CHR ''}'') (number_text t)"
    using number_text_chars [OF assms] by (simp add: list_all_iff)
  have ws: "list_all (\<lambda>c. c \<noteq> CHR ''}'') (tok_ws_set t)"
    using assms by (intro spaces_not_char) (simp add: wf_token_def)
  show ?thesis
    using n ws by (cases "tok_op t") (simp_all add: value_text_def)
qed

text \<open>The text between the tags of a token, and the same without the white space at its ends.\<close>

lemma token_inner:
  assumes "wf_token t"
  defines "core \<equiv> tok_id t @ tok_ws_id t @ '':'' @ tok_ws_sep t @ value_text t"
  shows "list_all (\<lambda>c. c \<noteq> CHR ''}'') (tok_ws_open t @ core @ tok_ws_close t)"
    and "trim (tok_ws_open t @ core @ tok_ws_close t) = core"
proof -
  have wfid: "wf_id (tok_id t)"
    and ws: "list_all is_space (tok_ws_open t)" "list_all is_space (tok_ws_id t)"
      "list_all is_space (tok_ws_sep t)" "list_all is_space (tok_ws_close t)"
    using assms(1) by (simp_all add: wf_token_def)
  have idc: "tok_id t \<noteq> []" "list_all is_id_part (tok_id t)"
    using wf_id_chars [OF wfid] by simp_all
  have id1: "list_all (\<lambda>c. c \<noteq> CHR ''}'') (tok_id t)"
    using idc(2) id_part_not_char by (auto simp: list_all_iff)
  show "list_all (\<lambda>c. c \<noteq> CHR ''}'') (tok_ws_open t @ core @ tok_ws_close t)"
    using id1 ws [THEN spaces_not_char(1)] value_text_chars [OF assms(1)]
    by (simp add: core_def)
  have "hd core = hd (tok_id t)"
    using idc(1) by (simp add: core_def)
  moreover have "last core = last (value_text t)"
    using value_text_head(1) [OF assms(1)] by (simp add: core_def)
  ultimately have "core \<noteq> []" "\<not> is_space (hd core)" "\<not> is_space (last core)"
    using idc(1) wf_id_ends(1) [OF wfid] value_text_head(3) [OF assms(1)]
    by (simp_all add: core_def)
  then show "trim (tok_ws_open t @ core @ tok_ws_close t) = core"
    using ws(1,4) by (intro trim_core)
qed

lemma standalone_pattern_token:
  assumes "wf_token t"
  shows "standalone_pattern default_config (token_text t @ rest) =
           Some (tok_ws_open t @ (tok_id t @ tok_ws_id t @ '':'' @ tok_ws_sep t @ value_text t)
                   @ tok_ws_close t, rest)"
proof -
  let ?content = "tok_ws_open t @ (tok_id t @ tok_ws_id t @ '':'' @ tok_ws_sep t @ value_text t)
                   @ tok_ws_close t"
  let ?s1 = "?content @ ''}}'' @ rest"
  let ?k = "\<lambda>s2. re_lit ''}}'' (\<lambda>s3. Some (consumed ?s1 s2, s3)) s2"
  have ne: "?content \<noteq> []"
    using assms by (cases "tok_id t") (simp_all add: wf_token_def)
  have "consumed ?s1 (''}}'' @ rest) = ?content"
    by (rule consumed_append)
  then have k: "?k (''}}'' @ rest) = Some (?content, rest)"
    using re_lit_here [of "''}}''" "\<lambda>s3. Some (consumed ?s1 (''}}'' @ rest), s3)" rest] by simp
  have pl: "re_plus (\<lambda>c. c \<noteq> CHR ''}'') ?k (?content @ ''}}'' @ rest) = Some (?content, rest)"
    by (rule re_plus_run [where P = "\<lambda>c. c \<noteq> CHR ''}''" and xs = ?content
          and ys = "''}}'' @ rest" and k = ?k, OF ne token_inner(1) [OF assms] _ k]) simp
  have tt: "token_text t @ rest = ''{{'' @ ?s1"
    by (simp add: token_text_def)
  show ?thesis
    unfolding standalone_pattern_default tt re_lit_here using pl by simp
qed

lemma indexOf_separator:
  "CHR '':'' \<notin> set xs \<Longrightarrow> indexOf (xs @ CHR '':'' # ys) '':'' = Some (length xs)"
  by (induction xs) auto

lemma standalone_command_parts:
  assumes "trim inner = i0 @ CHR '':'' # v0" and "CHR '':'' \<notin> set i0"
    and "trim i0 = i" and "trim v0 = v" and "i \<noteq> []" and "v \<noteq> []"
    and "parseFloat (if take 1 v = ''='' then drop 1 v else v) = x" and "x \<noteq> NaN"
  shows "standalone_command default_config raw inner =
           Some \<lparr> sc_statId = toLowerCase i, sc_value = x,
                  sc_type = (if take 1 v = ''='' then SET else MODIFY), sc_raw = raw \<rparr>"
proof -
  have idx: "indexOf (i0 @ CHR '':'' # v0) (separator default_config) = Some (length i0)"
    using indexOf_separator [OF assms(2)] by (simp add: default_config_def)
  have cs: "\<not> caseSensitive default_config"
    by (simp add: default_config_def)
  have tk: "take (length i0) (i0 @ CHR '':'' # v0) = i0"
    and dr: "drop (length i0 + 1) (i0 @ CHR '':'' # v0) = v0"
    by simp_all
  show ?thesis
    unfolding standalone_command_def Let_def assms(1) idx option.case tk dr assms(3) assms(4)
    using assms(5-8) cs by (cases "take 1 v = ''=''") simp_all
qed

lemma value_after_set:
  assumes "wf_token t"
  shows "(if take 1 (value_text t) = ''='' then drop 1 (value_text t) else value_text t) =
           (if op_type (tok_op t) = SET then tok_ws_set t else [])
             @ (if op_type (tok_op t) = SET then drop 1 (op_text (tok_op t) @ number_text t)
                else op_text (tok_op t) @ number_text t)"
  unfolding set_value_iff(2) [OF assms] by (cases "tok_op t") (simp_all add: value_text_def)

lemma standalone_command_token:
  assumes "wf_token t"
  shows "standalone_command default_config raw
           (tok_ws_open t @ (tok_id t @ tok_ws_id t @ '':'' @ tok_ws_sep t @ value_text t)
              @ tok_ws_close t) =
           Some \<lparr> sc_statId = toLowerCase (tok_id t), sc_value = to_double (token_value t),
                  sc_type = op_type (tok_op t), sc_raw = raw \<rparr>"
proof -
  define v where "v = value_text t"
  define i where "i = tok_id t"
  define i0 where "i0 = tok_id t @ tok_ws_id t"
  define v0 where "v0 = tok_ws_sep t @ value_text t"
  have wfid: "wf_id (tok_id t)"
    and ws: "list_all is_space (tok_ws_id t)" "list_all is_space (tok_ws_sep t)"
      "list_all is_space (tok_ws_set t)"
    using assms by (simp_all add: wf_token_def)
  have idc: "tok_id t \<noteq> []" "list_all is_id_part (tok_id t)"
    using wf_id_chars [OF wfid] by simp_all
  have c: "trim (tok_ws_open t @ (tok_id t @ tok_ws_id t @ '':'' @ tok_ws_sep t @ value_text t)
              @ tok_ws_close t) = i0 @ CHR '':'' # v0"
    using token_inner(2) [OF assms] by (simp add: i0_def v0_def)
  have nocolon: "CHR '':'' \<notin> set i0"
    using idc(2) id_part_not_char spaces_not_char(2) [OF ws(1)] by (auto simp: i0_def list_all_iff)
  have trim_id: "trim i0 = i"
    using trim_core [of "[]" "tok_ws_id t" "tok_id t"] ws(1) idc(1) wf_id_ends [OF wfid]
    by (simp add: i0_def i_def)
  have trim_val: "trim v0 = v"
    using trim_core [of "tok_ws_sep t" "[]" "value_text t"] ws(2) value_text_head [OF assms]
    by (simp add: v0_def v_def)
  have ine: "i \<noteq> []"
    using idc(1) by (simp add: i_def)
  have vne: "v \<noteq> []"
    using value_text_head(1) [OF assms] by (simp add: v_def)
  have sp: "list_all is_space (if op_type (tok_op t) = SET then tok_ws_set t else [])"
    using ws(3) by simp
  have num: "parseFloat (if take 1 v = ''='' then drop 1 v else v) = to_double (token_value t)"
    unfolding v_def value_after_set [OF assms]
    by (rule Number_numeric_part(2) [OF numeric_part [OF assms] sp])
  have nn: "to_double (token_value t) \<noteq> NaN"
    using to_double_cases [of "token_value t"] by auto
  have ty: "(if take 1 v = ''='' then SET else MODIFY) = op_type (tok_op t)"
    unfolding v_def set_value_iff(2) [OF assms] by (cases "tok_op t") simp_all
  show ?thesis
    using standalone_command_parts [OF c nocolon trim_id trim_val ine vne num nn, of raw]
    unfolding ty by (simp add: i_def)
qed

lemma standalone_pattern_no_tag:
  "take 2 s \<noteq> ''{{'' \<Longrightarrow> standalone_pattern default_config s = None"
  by (simp add: standalone_pattern_def default_config_def re_lit_def numeral_2_eq_2)

lemma standalone_scan_gap:
  "no_open_tag (pre @ ''{'') \<Longrightarrow>
   standalone_scan default_config 0 (pre @ CHR ''{'' # s)
     = standalone_scan default_config 0 (CHR ''{'' # s)"
proof (induction pre)
  case Nil
  show ?case by simp
next
  case (Cons c pre)
  have "standalone_pattern default_config (c # pre @ CHR ''{'' # s) = None"
    using no_open_tag_step(1) [OF Cons.prems] by (rule standalone_pattern_no_tag)
  then show ?case
    using Cons.IH [OF no_open_tag_step(2) [OF Cons.prems]] by simp
qed

lemma standalone_scan_no_tag: "no_open_tag s \<Longrightarrow> standalone_scan default_config 0 s = []"
proof (induction s)
  case Nil
  show ?case by simp
next
  case (Cons c s)
  have "standalone_pattern default_config (c # s) = None"
    using no_open_tag_tail [OF Cons.prems] by (intro standalone_pattern_no_tag) simp
  then show ?case
    using Cons.IH no_open_tag_tail [OF Cons.prems] by simp
qed

lemma standalone_scan_skip: "standalone_scan cfg (length xs) (xs @ s) = standalone_scan cfg 0 s"
  by (induction xs) simp_all

lemma standalone_scan_token:
  assumes "wf_token t"
  shows "standalone_scan default_config 0 (token_text t @ s) =
           \<lparr> sc_statId = toLowerCase (tok_id t), sc_value = to_double (token_value t),
             sc_type = op_type (tok_op t), sc_raw = token_text t \<rparr>
           # standalone_scan default_config 0 s"
proof -
  let ?inner = "tok_ws_open t @ (tok_id t @ tok_ws_id t @ '':'' @ tok_ws_sep t @ value_text t)
                  @ tok_ws_close t"
  obtain r where tt: "token_text t = CHR ''{'' # r"
    by (simp add: token_text_def)
  have pat: "standalone_pattern default_config (CHR ''{'' # r @ s) = Some (?inner, s)"
    using standalone_pattern_token [OF assms, of s] by (simp add: tt)
  have raw: "consumed (CHR ''{'' # r @ s) s = token_text t"
    using consumed_append [of "token_text t" s] by (simp add: tt)
  have step: "standalone_scan default_config 0 (CHR ''{'' # r @ s) =
      (case standalone_command default_config (token_text t) ?inner of
         None \<Rightarrow> [] | Some cmd \<Rightarrow> [cmd])
        @ standalone_scan default_config (length r) (r @ s)"
    by (simp add: pat raw)
  have eq: "token_text t @ s = CHR ''{'' # r @ s"
    by (simp add: tt)
  show ?thesis
    unfolding eq step standalone_scan_skip standalone_command_token [OF assms] by simp
qed

lemma standalone_is_scan:
  "standalone_parseValid default_config text = standalone_scan default_config 0 text"
  by (simp add: standalone_parseValid_def)

lemma standalone_scan_tokens:
  "wf_segments segs \<Longrightarrow> no_open_tag post \<Longrightarrow>
   standalone_scan default_config 0 (tokens_text segs post) =
     map (\<lambda>(pre, t). \<lparr> sc_statId = toLowerCase (tok_id t), sc_value = to_double (token_value t),
                         sc_type = op_type (tok_op t), sc_raw = token_text t \<rparr>) segs"
proof (induction segs)
  case Nil
  then show ?case
    by (simp add: standalone_scan_no_tag)
next
  case (Cons seg segs)
  obtain pre t where seg: "seg = (pre, t)" by (cases seg)
  have pre: "no_open_tag (pre @ ''{'')" and t: "wf_token t" and rest: "wf_segments segs"
    using Cons.prems(1) by (simp_all add: seg)
  obtain r where r: "token_text t @ tokens_text segs post = CHR ''{'' # r"
    using token_text_open by blast
  have "standalone_scan default_config 0 (pre @ token_text t @ tokens_text segs post) =
      standalone_scan default_config 0 (token_text t @ tokens_text segs post)"
    unfolding r by (rule standalone_scan_gap [OF pre])
  then show ?case
    using Cons.IH [OF rest Cons.prems(2)]
    by (simp add: seg standalone_scan_token [OF t])
qed

subsection \<open>A number beyond the range of the doubles\<close>

lemma digits_value_nines: "digits_value (replicate n CHR ''9'') = 10 ^ n - 1"
proof -
  have "foldl (\<lambda>acc c. 10 * acc + digit_value c) a (replicate n CHR ''9'') = (a + 1) * 10 ^ n - 1"
    for a
  proof (induction n arbitrary: a)
    case 0
    show ?case by simp
  next
    case (Suc n)
    have "digit_value CHR ''9'' = 9"
      by code_simp
    then show ?case
      using Suc [of "10 * a + 9"] by (simp add: algebra_simps)
  qed
  from this [of 0] show ?thesis
    by (simp add: digits_value_def)
qed

lemma big_power: "(2::int) ^ 1024 \<le> 10 ^ 310 - 1"
  by simp

text \<open>
  C9 (as amended). On a text made of canonical command tokens whose numbers are within
  the range of the finite doubles, each after a stretch of text in which no open tag
  begins and with a stretch without an open tag at the end, the parser module and the
  parser of index.js, both with the default configuration, return the same sequence of
  commands: for each token, in order, its lower-cased stat id, the double nearest to its
  number and its type. White space is allowed after the open tag, around the separator,
  before the close tag and after the \<open>=\<close> of a \<open>SET\<close> command.
\<close>

theorem parsers_agree_on_canonical_tokens:
  assumes "wf_segments segs" and "no_open_tag post"
  shows "map (\<lambda>c. (cmd_statId c, cmd_value c, cmd_type c))
           (parseValid default_config (tokens_text segs post))
         = map (\<lambda>(pre, t). token_command t) segs
       \<and> map (\<lambda>c. (sc_statId c, sc_value c, sc_type c))
           (standalone_parseValid default_config (tokens_text segs post))
         = map (\<lambda>(pre, t). token_command t) segs"
proof -
  have "parseValid default_config (tokens_text segs post) =
      filter cmd_isValid (scan default_config 0 (tokens_text segs post))"
    by (simp add: parseValid_def parse_is_scan)
  also have "\<dots> = scan default_config 0 (tokens_text segs post)"
    unfolding scan_tokens [OF assms] by (simp add: filter_id_conv case_prod_unfold)
  finally have A: "map (\<lambda>c. (cmd_statId c, cmd_value c, cmd_type c))
           (parseValid default_config (tokens_text segs post))
         = map (\<lambda>(pre, t). token_command t) segs"
    unfolding scan_tokens [OF assms] by (simp add: token_command_def case_prod_unfold)
  have B: "map (\<lambda>c. (sc_statId c, sc_value c, sc_type c))
           (standalone_parseValid default_config (tokens_text segs post))
         = map (\<lambda>(pre, t). token_command t) segs"
    unfolding standalone_is_scan standalone_scan_tokens [OF assms]
    by (simp add: token_command_def case_prod_unfold)
  show ?thesis
    using A B by simp
qed

text \<open>
  C9 as stated fails, in four ways. On \<open>{{hp:5%}}\<close> the module's pattern does not match
  (after the digits it wants the closing braces) and the module returns no command; the
  parser of index.js takes everything between the braces, and \<open>parseFloat\<close> reads the
  \<open>5\<close>. On \<open>{{hp:- 5}}\<close> the module's pattern allows the space after the sign and the
  module returns \<open>hp\<close>, -5; \<open>parseFloat("- 5")\<close> is \<open>NaN\<close> and index.js returns nothing.
  On \<open>{{{hp:5}}\<close> the module matches from the second brace and returns \<open>hp\<close>; index.js
  matches from the first and returns the stat id \<open>{hp\<close>. And on \<open>{{hp:99...9}}\<close> with 310
  nines both \<open>Number\<close> and \<open>parseFloat\<close> give \<open>Infinity\<close>: the module, whose \<open>toNumber\<close>
  wants a finite number, marks the command invalid, and index.js returns it.
\<close>

theorem parsers_disagree_counterexample:
  "map (\<lambda>c. (cmd_statId c, cmd_value c, cmd_type c)) (parseValid default_config ''{{hp:5%}}'') = []
   \<and> map (\<lambda>c. (sc_statId c, sc_value c, sc_type c)) (standalone_parseValid default_config ''{{hp:5%}}'')
       = [(''hp'', Num 5, MODIFY)]
   \<and> map (\<lambda>c. (cmd_statId c, cmd_value c, cmd_type c)) (parseValid default_config ''{{hp:- 5}}'')
       = [(''hp'', Num (- 5), MODIFY)]
   \<and> map (\<lambda>c. (sc_statId c, sc_value c, sc_type c)) (standalone_parseValid default_config ''{{hp:- 5}}'')
       = []
   \<and> map (\<lambda>c. (cmd_statId c, cmd_value c, cmd_type c)) (parseValid default_config ''{{{hp:5}}'')
       = [(''hp'', Num 5, MODIFY)]
   \<and> map (\<lambda>c. (sc_statId c, sc_value c, sc_type c)) (standalone_parseValid default_config ''{{{hp:5}}'')
       = [(''{hp'', Num 5, MODIFY)]
   \<and> map (\<lambda>c. (cmd_statId c, cmd_value c, cmd_type c))
        (parseValid default_config (''{{hp:'' @ replicate 310 CHR ''9'' @ ''}}'')) = []
   \<and> map (\<lambda>c. (sc_statId c, sc_value c, sc_type c))
        (standalone_parseValid default_config (''{{hp:'' @ replicate 310 CHR ''9'' @ ''}}''))
       = [(''hp'', PosInf, MODIFY)]"
proof -
  have A: "map (\<lambda>c. (cmd_statId c, cmd_value c, cmd_type c)) (parseValid default_config ''{{hp:5%}}'') = []"
    "map (\<lambda>c. (sc_statId c, sc_value c, sc_type c)) (standalone_parseValid default_config ''{{hp:5%}}'')
       = [(''hp'', Num 5, MODIFY)]"
    by code_simp+
  have B: "map (\<lambda>c. (cmd_statId c, cmd_value c, cmd_type c)) (parseValid default_config ''{{hp:- 5}}'')
       = [(''hp'', Num (- 5), MODIFY)]"
    "map (\<lambda>c. (sc_statId c, sc_value c, sc_type c)) (standalone_parseValid default_config ''{{hp:- 5}}'')
       = []"
    by code_simp+
  have C: "map (\<lambda>c. (cmd_statId c, cmd_value c, cmd_type c)) (parseValid default_config ''{{{hp:5}}'')
       = [(''hp'', Num 5, MODIFY)]"
    "map (\<lambda>c. (sc_statId c, sc_value c, sc_type c)) (standalone_parseValid default_config ''{{{hp:5}}'')
       = [(''{hp'', Num 5, MODIFY)]"
    by code_simp+
  define t where "t = \<lparr> tok_ws_open = [], tok_id = ''hp'', tok_ws_id = [], tok_ws_sep = [],
    tok_op = Op_none, tok_ws_set = [], tok_digits = replicate 310 CHR ''9'', tok_fraction = [],
    tok_ws_close = [] \<rparr>"
  have "wf_id ''hp''" "is_digit CHR ''9''" and lower: "toLowerCase ''hp'' = ''hp''"
    by code_simp+
  then have wf: "wf_token t"
    by (simp add: wf_token_def t_def list_all_iff)
  have tt: "token_text t = ''{{hp:'' @ replicate 310 CHR ''9'' @ ''}}''"
    by (simp add: token_text_def value_text_def number_text_def t_def)
  have empty: "digits_value [] = 0"
    by (simp add: digits_value_def)
  have "token_value t = of_int (10 ^ 310 - 1)"
    by (simp only: token_value_def t_def CommandToken.simps digits_value_nines empty Let_def
        op_negative.simps) simp
  moreover have "pow2 1024 \<le> of_int (10 ^ 310 - 1)"
    unfolding pow2_def using big_power by (simp only: of_int_le_iff nat_numeral if_True) simp
  ultimately have inf: "to_double (token_value t) = PosInf"
    using to_double_overflow by simp
  then have out: "\<not> in_double_range t"
    by (simp add: in_double_range_def)
  have "parseValid default_config (token_text t @ []) = []"
    unfolding parseValid_def parse_is_scan scan_token [OF wf]
    using parseCommand_out_of_range [OF wf out] by simp
  then have D: "map (\<lambda>c. (cmd_statId c, cmd_value c, cmd_type c))
        (parseValid default_config (''{{hp:'' @ replicate 310 CHR ''9'' @ ''}}'')) = []"
    by (simp add: tt)
  have "standalone_parseValid default_config (token_text t @ []) =
      [\<lparr> sc_statId = ''hp'', sc_value = PosInf, sc_type = MODIFY, sc_raw = token_text t \<rparr>]"
    unfolding standalone_is_scan standalone_scan_token [OF wf] inf
    by (simp add: t_def lower)
  then have E: "map (\<lambda>c. (sc_statId c, sc_value c, sc_type c))
        (standalone_parseValid default_config (''{{hp:'' @ replicate 310 CHR ''9'' @ ''}}''))
       = [(''hp'', PosInf, MODIFY)]"
    by (simp add: tt)
  show ?thesis
    using A B C D E by simp
qed

theorem parsers_agree_on_canonical_tokens_witness:
  "wf_segments
     [(''You take '', \<lparr>tok_ws_open = '' '', tok_id = ''HP'', tok_ws_id = '' '', tok_ws_sep = '' '',
         tok_op = Op_minus, tok_ws_set = [], tok_digits = ''10'', tok_fraction = ''5'',
         tok_ws_close = '' ''\<rparr>),
      ('' and { '', \<lparr>tok_ws_open = [], tok_id = ''mp'', tok_ws_id = [], tok_ws_sep = [],
         tok_op = Op_set, tok_ws_set = '' '', tok_digits = ''50'', tok_fraction = [],
         tok_ws_close = []\<rparr>)]
   \<and> no_open_tag ''!''
   \<and> tokens_text
     [(''You take '', \<lparr>tok_ws_open = '' '', tok_id = ''HP'', tok_ws_id = '' '', tok_ws_sep = '' '',
         tok_op = Op_minus, tok_ws_set = [], tok_digits = ''10'', tok_fraction = ''5'',
         tok_ws_close = '' ''\<rparr>),
      ('' and { '', \<lparr>tok_ws_open = [], tok_id = ''mp'', tok_ws_id = [], tok_ws_sep = [],
         tok_op = Op_set, tok_ws_set = '' '', tok_digits = ''50'', tok_fraction = [],
         tok_ws_close = []\<rparr>)] ''!''
     = ''You take {{ HP : -10.5 }} and { {{mp:= 50}}!''
   \<and> map (\<lambda>c. (cmd_statId c, cmd_value c, cmd_type c))
        (parseValid default_config ''You take {{ HP : -10.5 }} and { {{mp:= 50}}!'')
       = [(''hp'', Num (- 21 / 2), MODIFY), (''mp'', Num 50, SET)]
   \<and> map (\<lambda>c. (sc_statId c, sc_value c, sc_type c))
        (standalone_parseValid default_config ''You take {{ HP : -10.5 }} and { {{mp:= 50}}!'')
       = [(''hp'', Num (- 21 / 2), MODIFY), (''mp'', Num 50, SET)]"
proof -
  let ?segs = "[(''You take '', \<lparr>tok_ws_open = '' '', tok_id = ''HP'', tok_ws_id = '' '', tok_ws_sep = '' '',
         tok_op = Op_minus, tok_ws_set = [], tok_digits = ''10'', tok_fraction = ''5'',
         tok_ws_close = '' ''\<rparr>),
      ('' and { '', \<lparr>tok_ws_open = [], tok_id = ''mp'', tok_ws_id = [], tok_ws_sep = [],
         tok_op = Op_set, tok_ws_set = '' '', tok_digits = ''50'', tok_fraction = [],
         tok_ws_close = []\<rparr>)]"
  have wf: "wf_segments ?segs"
    by code_simp
  have post: "no_open_tag ''!''"
    by simp
  have tt: "tokens_text ?segs ''!'' = ''You take {{ HP : -10.5 }} and { {{mp:= 50}}!''"
    by code_simp
  have cmds: "map (\<lambda>(pre, t). token_command t) ?segs
      = [(''hp'', Num (- 21 / 2), MODIFY), (''mp'', Num 50, SET)]"
    by code_simp
  show ?thesis
    using parsers_agree_on_canonical_tokens [OF wf post] wf post
    unfolding tt cmds by simp
qed

end
